theory Spec2Isabelle
  imports Complex_Main "HOL-Library.Sublist"
begin

section \<open>Credential store (data.py, class CookieManager)\<close>

text \<open>
  One stored entry is a Python dict read with \<open>.get\<close>: the token value
  (\<open>.get("puid")\<close> or \<open>.get("cf_clearance")\<close>) and \<open>.get("expires")\<close>; a missing
  key reads as \<open>None\<close>.  The clock \<open>time.time()\<close> is a float, so times are reals.
  A dict keeps insertion order and \<open>list(d.keys())\<close> is indexed by \<open>random.choice\<close>,
  so the two token dicts are association lists read with \<open>map_of\<close>.
\<close>

record token_info =
  token :: "string option"
  expires :: "real option"

type_synonym token_map = "(string \<times> token_info) list"

record CookieManager =
  cf_clearances :: token_map
  puids :: token_map

text \<open>The store object together with the document last written to cookies.json
  (\<open>None\<close>: the file does not exist).\<close>

record store =
  manager :: CookieManager
  cookies_json :: "CookieManager option"

datatype exn =
    PlaywrightError
  | StreamResponseException string
  | ValueError
  | OtherException
  | StopAsyncIteration
  | RuntimeError
  | RecursionError

text \<open>Python truthiness of an optional string: \<open>None\<close> and \<open>""\<close> are false.\<close>

definition truthy :: "string option \<Rightarrow> bool" where
  "truthy v = (case v of None \<Rightarrow> False | Some s \<Rightarrow> s \<noteq> [])"

text \<open>\<open>del d[k]\<close>.\<close>

definition del_key :: "string \<Rightarrow> token_map \<Rightarrow> token_map" where
  "del_key k m = filter (\<lambda>kv. fst kv \<noteq> k) m"

text \<open>\<open>d[k] = v\<close>: an existing key keeps its position, a new one is appended.\<close>

fun set_key :: "string \<Rightarrow> 'v \<Rightarrow> (string \<times> 'v) list \<Rightarrow> (string \<times> 'v) list" where
  "set_key k v [] = [(k, v)]"
| "set_key k v ((k', v') # m) = (if k' = k then (k, v) # m else (k', v') # set_key k v m)"

text \<open>\<open>CookieManager.save\<close>: the whole model is written to the file.\<close>

definition save :: "store \<Rightarrow> store" where
  "save s = s\<lparr>cookies_json := Some (manager s)\<rparr>"

text \<open>\<open>CookieManager.get_puid\<close> at clock reading \<open>now\<close>.\<close>

definition get_puid :: "real \<Rightarrow> string \<Rightarrow> store \<Rightarrow> string option \<times> store" where
  "get_puid now user_id s =
     (case map_of (puids (manager s)) user_id of
        None \<Rightarrow> (None, s)
      | Some puid_info \<Rightarrow>
          (case expires puid_info of
             Some e \<Rightarrow>
               if e < now
               then (None, s\<lparr>manager := (manager s)\<lparr>puids := del_key user_id (puids (manager s))\<rparr>\<rparr>)
               else (token puid_info, s)
           | None \<Rightarrow> (token puid_info, s)))"

text \<open>\<open>CookieManager.get_cf_clearance\<close> at clock reading \<open>now\<close>.\<close>

definition get_cf_clearance :: "real \<Rightarrow> string \<Rightarrow> store \<Rightarrow> string option \<times> store" where
  "get_cf_clearance now cf_id s =
     (case map_of (cf_clearances (manager s)) cf_id of
        None \<Rightarrow> (None, s)
      | Some cf_clearance_info \<Rightarrow>
          (case expires cf_clearance_info of
             Some e \<Rightarrow>
               if e < now
               then (None, s\<lparr>manager := (manager s)\<lparr>cf_clearances := del_key cf_id (cf_clearances (manager s))\<rparr>\<rparr>)
               else (token cf_clearance_info, s)
           | None \<Rightarrow> (token cf_clearance_info, s)))"

text \<open>
  The properties \<open>puid\<close> and \<open>cf_clearance\<close>.  \<open>rnd k\<close> is the k-th draw of
  \<open>random.choice\<close> (reduced modulo the number of keys) and \<open>clock k\<close> the k-th reading of
  \<open>time.time()\<close>; \<open>k\<close> counts the activations of the property.  Each recursive
  access \<open>self.puid\<close> nests one more Python frame, and the interpreter raises
  \<open>RecursionError\<close> when its recursion limit (1000 by default) is passed.  \<open>depth\<close> is
  the number of activations, counting the current one, that can still make their calls
  (\<open>random.choice\<close>, \<open>get_puid\<close>) under that limit.  An activation tests for the empty
  map before it calls anything; one that must call and cannot raises \<open>RecursionError\<close>,
  which no frame of the property catches, and the entries deleted so far stay deleted.
\<close>

fun puid :: "(nat \<Rightarrow> nat) \<Rightarrow> (nat \<Rightarrow> real) \<Rightarrow> nat \<Rightarrow> nat \<Rightarrow> store \<Rightarrow> (exn + string) \<times> store" where
  "puid rnd clock k 0 s =
     (if puids (manager s) = [] then (Inr [], s) else (Inl RecursionError, s))"
| "puid rnd clock k (Suc depth) s =
     (if puids (manager s) = [] then (Inr [], s)
      else let keys = map fst (puids (manager s));
               user_id = keys ! (rnd k mod length keys);
               r = get_puid (clock k) user_id s
           in if truthy (fst r) then (Inr (the (fst r)), snd r)
              else puid rnd clock (Suc k) depth (snd r))"

fun cf_clearance :: "(nat \<Rightarrow> nat) \<Rightarrow> (nat \<Rightarrow> real) \<Rightarrow> nat \<Rightarrow> nat \<Rightarrow> store \<Rightarrow> (exn + string) \<times> store" where
  "cf_clearance rnd clock k 0 s =
     (if cf_clearances (manager s) = [] then (Inr [], s) else (Inl RecursionError, s))"
| "cf_clearance rnd clock k (Suc depth) s =
     (if cf_clearances (manager s) = [] then (Inr [], s)
      else let keys = map fst (cf_clearances (manager s));
               cf_id = keys ! (rnd k mod length keys);
               r = get_cf_clearance (clock k) cf_id s
           in if truthy (fst r) then (Inr (the (fst r)), snd r)
              else cf_clearance rnd clock (Suc k) depth (snd r))"

declare puid.simps [simp del] cf_clearance.simps [simp del]

text \<open>\<open>str.split(sep)\<close> for a one-character separator.\<close>

fun split_on :: "char \<Rightarrow> string \<Rightarrow> string list" where
  "split_on c [] = [[]]"
| "split_on c (x # xs) =
     (if x = c then [] # split_on c xs
      else (case split_on c xs of w # ws \<Rightarrow> (x # w) # ws | [] \<Rightarrow> [[x]]))"

text \<open>
  \<open>CookieManager.save_puid\<close>, \<open>save_cf_clearance\<close> and \<open>delete_cf_clearance\<close>.  The
  unpacking of a split of the wrong length raises \<open>ValueError\<close>.  \<open>py_int\<close> stands for
  Python's builtin \<open>int(str)\<close> (\<open>None\<close>: it raises \<open>ValueError\<close>).
\<close>

definition save_puid :: "(string \<Rightarrow> int option) \<Rightarrow> string \<Rightarrow> store \<Rightarrow> exn + store" where
  "save_puid py_int p s =
     (case split_on CHR '':'' p of
        [user_id, tok] \<Rightarrow>
          (case split_on CHR ''-'' tok of
             t0 # _ \<Rightarrow>
               (case py_int t0 of
                  None \<Rightarrow> Inl ValueError
                | Some n \<Rightarrow>
                    Inr (save (s\<lparr>manager := (manager s)\<lparr>puids :=
                      set_key user_id \<lparr>token = Some p, expires = Some (real_of_int (n + 7 * 24 * 60 * 60))\<rparr>
                        (puids (manager s))\<rparr>\<rparr>)))
           | [] \<Rightarrow> Inl OtherException)
      | _ \<Rightarrow> Inl ValueError)"

definition save_cf_clearance :: "(string \<Rightarrow> int option) \<Rightarrow> string \<Rightarrow> store \<Rightarrow> exn + store" where
  "save_cf_clearance py_int c s =
     (if c \<noteq> [] then
        (case split_on CHR ''-'' c of
           [cf_id, ex, _, _, _, _] \<Rightarrow>
             (case py_int ex of
                None \<Rightarrow> Inl ValueError
              | Some n \<Rightarrow>
                  Inr (save (s\<lparr>manager := (manager s)\<lparr>cf_clearances :=
                    set_key cf_id \<lparr>token = Some c, expires = Some (real_of_int (n + 30 * 60))\<rparr>
                      (cf_clearances (manager s))\<rparr>\<rparr>)))
         | _ \<Rightarrow> Inl ValueError)
      else Inr s)"

definition delete_cf_clearance :: "string \<Rightarrow> store \<Rightarrow> exn + (bool \<times> store)" where
  "delete_cf_clearance c s =
     (if c \<noteq> [] then
        (case split_on CHR ''-'' c of
           [cf_id, ex, _, _, _, _] \<Rightarrow>
             if cf_id \<in> set (map fst (cf_clearances (manager s)))
             then Inr (True, save (s\<lparr>manager := (manager s)\<lparr>cf_clearances :=
                          del_key cf_id (cf_clearances (manager s))\<rparr>\<rparr>))
             else Inr (False, s)
         | _ \<Rightarrow> Inl ValueError)
      else Inr (False, s))"

section \<open>Streamed responses (data.py, classes StreamResponse and AsyncStreamIterator)\<close>

text \<open>
  A \<open>JSHandle\<close> is a reference into the browser; an object reference is truthy, so
  \<open>if self.response\<close> tests for \<open>None\<close>.  Awaiting a call into the browser returns a
  value, raises Playwright's \<open>Error\<close>, or raises something else.
\<close>

type_synonym JSHandle = nat

datatype 'a js = Returned 'a | JSError | JSOther

definition js_result :: "'a js \<Rightarrow> exn + 'a" where
  "js_result r = (case r of Returned v \<Rightarrow> Inr v | JSError \<Rightarrow> Inl PlaywrightError | JSOther \<Rightarrow> Inl OtherException)"

record StreamResponse =
  status :: int
  headers :: "(string \<times> string) list"
  controller :: "JSHandle option"
  response :: "JSHandle option"
  timeout :: int

text \<open>The constructor call \<open>StreamResponse(status=st)\<close>, every other argument at its default.\<close>

definition StreamResponse_init :: "int \<Rightarrow> StreamResponse" where
  "StreamResponse_init st = \<lparr>status = st, headers = [], controller = None, response = None, timeout = 30\<rparr>"

record AsyncStreamIterator =
  it_response :: JSHandle
  it_timeout :: int
  reader :: "JSHandle option"

text \<open>\<open>StreamResponse.read\<close>; \<open>arrayBuffer\<close> is the outcome of the evaluation in the page.\<close>

definition read :: "nat list js \<Rightarrow> StreamResponse \<Rightarrow> exn + nat list" where
  "read arrayBuffer r =
     (case response r of
        Some h \<Rightarrow> js_result arrayBuffer
      | None \<Rightarrow> Inl (StreamResponseException ''Cannot read, response is None''))"

text \<open>\<open>text\<close> and \<open>json\<close>; \<open>decode\<close> is \<open>bytes.decode\<close> and \<open>loads\<close> is \<open>json.loads\<close>.\<close>

definition text_of :: "(nat list \<Rightarrow> exn + string) \<Rightarrow> nat list js \<Rightarrow> StreamResponse \<Rightarrow> exn + string" where
  "text_of decode arrayBuffer r =
     (case read arrayBuffer r of Inl e \<Rightarrow> Inl e | Inr b \<Rightarrow> decode b)"

definition json :: "(string \<Rightarrow> exn + 'j) \<Rightarrow> (nat list \<Rightarrow> exn + string) \<Rightarrow> nat list js \<Rightarrow> StreamResponse \<Rightarrow> exn + 'j" where
  "json loads decode arrayBuffer r =
     (case text_of decode arrayBuffer r of Inl e \<Rightarrow> Inl e | Inr t \<Rightarrow> loads t)"

text \<open>\<open>stop\<close>; \<open>abort\<close> and \<open>dispose\<close> are the outcomes of the two calls on the controller.\<close>

definition stop :: "unit js \<Rightarrow> unit js \<Rightarrow> StreamResponse \<Rightarrow> exn + unit" where
  "stop abort dispose r =
     (case controller r of
        Some h \<Rightarrow> (case js_result abort of Inl e \<Rightarrow> Inl e | Inr _ \<Rightarrow> js_result dispose)
      | None \<Rightarrow> Inl (StreamResponseException ''controller is None''))"

definition iter_chunked :: "StreamResponse \<Rightarrow> exn + AsyncStreamIterator" where
  "iter_chunked r =
     (case response r of
        Some h \<Rightarrow> Inr \<lparr>it_response = h, it_timeout = timeout r, reader = None\<rparr>
      | None \<Rightarrow> Inl (StreamResponseException ''response is None''))"

text \<open>\<open>StreamResponse.wait_for_headers\<close>; the two evaluations are \<open>status_eval\<close> and
  \<open>headers_eval\<close>, the second made only when the first returned.\<close>

definition wait_for_headers ::
  "int js \<Rightarrow> (string \<times> string) list js \<Rightarrow> JSHandle option \<Rightarrow> JSHandle option \<Rightarrow> int \<Rightarrow> exn + StreamResponse" where
  "wait_for_headers status_eval headers_eval resp ctrl tmo =
     (case resp of
        Some h \<Rightarrow>
          (case status_eval of
             JSError \<Rightarrow> Inl (StreamResponseException ''Fetch Error, Please try again later'')
           | JSOther \<Rightarrow> Inl (StreamResponseException ''Unknown Error'')
           | Returned st \<Rightarrow>
               (case headers_eval of
                  JSError \<Rightarrow> Inl (StreamResponseException ''Fetch Error, Please try again later'')
                | JSOther \<Rightarrow> Inl (StreamResponseException ''Unknown Error'')
                | Returned hs \<Rightarrow>
                    Inr \<lparr>status = st, headers = hs, controller = ctrl, response = Some h, timeout = tmo\<rparr>))
      | None \<Rightarrow> Inl (StreamResponseException ''response is None''))"


text \<open>
  One pull of the chunk iterator.  \<open>asyncio.wait_for\<close> bounds \<open>self.read()\<close>: each of
  its two awaits either completes in time or is cut off by the timeout (\<open>Late\<close>).  The
  two \<open>dispose\<close> calls are made outside the bound.
\<close>

datatype 'a timed = InTime 'a | Late

record pull =
  getReader :: "JSHandle js timed"
  reader_read :: "(bool \<times> nat list option) js timed"
  dispose_response :: "unit js"
  dispose_reader :: "unit js"

text \<open>\<open>AsyncStreamIterator.read\<close>: the reader is created on the first pull; an \<open>Error\<close>
  from \<open>reader.read()\<close> reads as \<open>done\<close> with no value; a missing value is \<open>b""\<close>.\<close>

definition iterator_read ::
  "pull \<Rightarrow> AsyncStreamIterator \<Rightarrow> (exn + bool \<times> nat list) timed \<times> AsyncStreamIterator" where
  "iterator_read p it =
     (case (case reader it of Some h \<Rightarrow> InTime (Returned h) | None \<Rightarrow> getReader p) of
        Late \<Rightarrow> (Late, it)
      | InTime JSError \<Rightarrow> (InTime (Inl PlaywrightError), it)
      | InTime JSOther \<Rightarrow> (InTime (Inl OtherException), it)
      | InTime (Returned h) \<Rightarrow>
          (let it' = it\<lparr>reader := Some h\<rparr> in
           case reader_read p of
             Late \<Rightarrow> (Late, it')
           | InTime JSOther \<Rightarrow> (InTime (Inl OtherException), it')
           | InTime JSError \<Rightarrow> (InTime (Inr (True, [])), it')
           | InTime (Returned (done, v)) \<Rightarrow>
               (InTime (Inr (done, case v of Some b \<Rightarrow> b | None \<Rightarrow> [])), it')))"

text \<open>
  \<open>AsyncStreamIterator.__anext__\<close>.  The second component of the state is the log of
  \<open>dispose()\<close> calls made so far, one handle per call.  \<open>it_response\<close> is always a
  \<open>JSHandle\<close> here, so the \<open>isinstance\<close> test is true.
\<close>

definition anext ::
  "pull \<Rightarrow> AsyncStreamIterator \<times> JSHandle list \<Rightarrow> (exn + nat list) \<times> (AsyncStreamIterator \<times> JSHandle list)" where
  "anext p st =
     (let it = fst st; ds = snd st in
      case iterator_read p it of
        (Late, it') \<Rightarrow> (Inl StopAsyncIteration, (it', ds))
      | (InTime (Inl e), it') \<Rightarrow> (Inl e, (it', ds))
      | (InTime (Inr (done, data)), it') \<Rightarrow>
          if done then
            (case js_result (dispose_response p) of
               Inl e \<Rightarrow> (Inl e, (it', ds @ [it_response it']))
             | Inr _ \<Rightarrow>
                 (case reader it' of
                    None \<Rightarrow> (Inl OtherException, (it', ds @ [it_response it']))
                  | Some rd \<Rightarrow>
                      (case js_result (dispose_reader p) of
                         Inl e \<Rightarrow> (Inl e, (it', ds @ [it_response it', rd]))
                       | Inr _ \<Rightarrow> (Inl StopAsyncIteration, (it', ds @ [it_response it', rd])))))
          else (Inr data, (it', ds)))"

text \<open>
  \<open>async for chunk in it\<close>: pulls until \<open>__anext__\<close> raises; \<open>StopAsyncIteration\<close>
  ends the loop normally, any other exception leaves it.  \<open>env k\<close> is what the browser
  does at the k-th pull.  A body that never ends gives a loop that never returns.
\<close>

partial_function (option) async_for ::
  "(nat \<Rightarrow> pull) \<Rightarrow> nat \<Rightarrow> AsyncStreamIterator \<times> JSHandle list \<Rightarrow> nat list list \<Rightarrow>
     ((exn option \<times> nat list list) \<times> (AsyncStreamIterator \<times> JSHandle list)) option" where
  "async_for env k st acc =
     (let r = anext (env k) st in
      case fst r of
        Inl e \<Rightarrow> Some ((if e = StopAsyncIteration then None else Some e, acc), snd r)
      | Inr chunk \<Rightarrow> async_for env (Suc k) (snd r) (acc @ [chunk]))"


section \<open>Execution contexts (session.py, class ChatSession)\<close>

text \<open>
  Of a context the flags \<open>available\<close> and \<open>running\<close>, the clearance value it holds and
  the coroutines it has handed to \<open>asyncio.ensure_future\<close> are kept; the credential
  store is shared by all contexts and is passed beside it.
\<close>

datatype task = Get_cf_cookies_wait | Init_page_restart

record ChatSession =
  available :: bool
  running :: bool
  session_cf_clearance :: string
  scheduled :: "task list"

text \<open>What the browser does during one request: the outcome of each awaited call,
  in the order the code makes them.\<close>

record attempt =
  set_cookie_r :: "unit js"
  new_controller :: "JSHandle js"
  tracked_fetch :: "JSHandle js"
  status_eval :: "int js"
  headers_eval :: "(string \<times> string) list js"
  get_cookie_r :: "string js"
  fetch_counter :: "unit js"
  abort_r :: "unit js"
  dispose_r :: "unit js"

definition SESSION_TOKEN_KEY :: string where
  "SESSION_TOKEN_KEY = ''__Secure-next-auth.session-token''"

text \<open>Python's \<open>sub in s\<close> on strings.\<close>

fun py_in :: "string \<Rightarrow> string \<Rightarrow> bool" where
  "py_in sub [] = (sub = [])"
| "py_in sub (y # ys) = (prefix sub (y # ys) \<or> py_in sub ys)"

text \<open>
  \<open>ChatSession.fetch\<close> up to its \<open>yield\<close>, and from the \<open>yield\<close> to its end.  The
  method, URL, headers and body only travel into the page, whose answer is the
  \<open>attempt\<close>.  An exception leaves the flags as they are at that point.
\<close>

definition fetch_enter ::
  "attempt \<Rightarrow> (string \<times> string) list \<Rightarrow> int \<Rightarrow> ChatSession \<Rightarrow> (exn + StreamResponse) \<times> ChatSession" where
  "fetch_enter a cookies tmo c =
     (let c1 = (if cookies \<noteq> [] then c\<lparr>running := True\<rparr> else c) in
      case (if cookies \<noteq> [] then js_result (set_cookie_r a) else Inr ()) of
        Inl e \<Rightarrow> (Inl e, c1)
      | Inr _ \<Rightarrow>
          (case js_result (new_controller a) of
             Inl e \<Rightarrow> (Inl e, c1)
           | Inr ctrl \<Rightarrow>
               (case js_result (tracked_fetch a) of
                  Inl e \<Rightarrow> (Inl e, c1)
                | Inr resp \<Rightarrow>
                    (wait_for_headers (status_eval a) (headers_eval a) (Some resp) (Some ctrl) tmo, c1))))"

definition fetch_exit :: "attempt \<Rightarrow> StreamResponse \<Rightarrow> ChatSession \<Rightarrow> exn option \<times> ChatSession" where
  "fetch_exit a resp c =
     (let c1 = c\<lparr>running := False\<rparr> in
      case js_result (fetch_counter a) of
        Inl e \<Rightarrow> (Some e, c1)
      | Inr _ \<Rightarrow>
          (case stop (abort_r a) (dispose_r a) resp of
             Inl e \<Rightarrow> (Some e, c1)
           | Inr _ \<Rightarrow> (None, c1)))"

text \<open>
  \<open>ChatSession._call_api\<close> up to its \<open>yield\<close>.  The result is the exception that leaves
  the context manager, or the response yielded together with a flag telling whether the
  \<open>yield\<close> is inside \<open>async with self.fetch\<close> (\<open>True\<close>) or in the \<open>except\<close> branch.
  An exception raised in the body of \<open>async with self.fetch\<close> leaves \<open>fetch\<close> at its
  \<open>yield\<close>, so the rest of \<open>fetch\<close> does not run.
\<close>

definition call_api_body ::
  "attempt \<Rightarrow> string \<Rightarrow> string option \<Rightarrow> StreamResponse \<Rightarrow> ChatSession \<times> store \<Rightarrow>
     (exn + StreamResponse) \<times> (ChatSession \<times> store)" where
  "call_api_body a url session_token resp cs =
     (let c = fst cs; st = snd cs;
          with_cookie = (\<lambda>cs'.
            if truthy session_token then
              (case js_result (get_cookie_r a) of
                 Inl e \<Rightarrow> (Inl e, cs')
               | Inr tok \<Rightarrow>
                   if tok \<noteq> [] then
                     (Inr (resp\<lparr>headers := set_key ''set-cookie''
                        (SESSION_TOKEN_KEY @ ''='' @ tok @ ''; path=/; max-age=31536000; secure; httponly'')
                        (headers resp)\<rparr>), cs')
                   else (Inr resp, cs'))
            else (Inr resp, cs'))
      in
      if status resp = 403 then
        (case delete_cf_clearance (session_cf_clearance c) st of
           Inl e \<Rightarrow> (Inl e, cs)
         | Inr (_, st') \<Rightarrow> with_cookie (c\<lparr>scheduled := scheduled c @ [Get_cf_cookies_wait]\<rparr>, st'))
      else if status resp = 429 \<and> py_in ''/api/auth/session'' url then
        (Inr (resp\<lparr>status := 403\<rparr>),
         (if available c then c\<lparr>scheduled := scheduled c @ [Init_page_restart]\<rparr> else c, st))
      else with_cookie cs)"

definition call_api_enter ::
  "attempt \<Rightarrow> string \<Rightarrow> string option \<Rightarrow> int \<Rightarrow> ChatSession \<times> store \<Rightarrow>
     (exn + StreamResponse \<times> bool) \<times> (ChatSession \<times> store)" where
  "call_api_enter a url session_token tmo cs =
     (let c = fst cs; st = snd cs;
          c1 = (if truthy session_token then c\<lparr>running := True\<rparr> else c);
          handler = (\<lambda>e cs'. if e = PlaywrightError
                               then (Inr (StreamResponse_init 403, False), cs')
                               else (Inl e, cs'))
      in
      case js_result (set_cookie_r a) of
        Inl e \<Rightarrow> handler e (c1, st)
      | Inr _ \<Rightarrow>
          (case fetch_enter a [] tmo c1 of
             (Inl e, c2) \<Rightarrow> handler e (c2, st)
           | (Inr resp, c2) \<Rightarrow>
               (case call_api_body a url session_token resp (c2, st) of
                  (Inl e, cs') \<Rightarrow> handler e cs'
                | (Inr resp', cs') \<Rightarrow> (Inr (resp', True), cs'))))"

text \<open>
  \<open>ChatSession._call_api\<close> from its \<open>yield\<close> to its end, when the caller's block ends
  normally.  Inside \<open>fetch\<close> the rest of \<open>fetch\<close> runs; a Playwright error there is
  caught by the \<open>except\<close> branch, whose second \<open>yield\<close> makes the context manager
  raise \<open>RuntimeError\<close>.
\<close>

definition call_api_exit ::
  "attempt \<Rightarrow> StreamResponse \<times> bool \<Rightarrow> ChatSession \<Rightarrow> exn option \<times> ChatSession" where
  "call_api_exit a y c =
     (if snd y then
        (case fetch_exit a (fst y) c of
           (None, c') \<Rightarrow> (None, c')
         | (Some e, c') \<Rightarrow> (Some (if e = PlaywrightError then RuntimeError else e), c'))
      else (None, c))"


section \<open>The pool (session.py, class SessionManager)\<close>

text \<open>\<open>str.endswith\<close> and \<open>str.startswith\<close> with a tuple of alternatives.\<close>

definition endswith :: "string \<Rightarrow> string list \<Rightarrow> bool" where
  "endswith s alts = (\<exists>x \<in> set alts. suffix x s)"

definition startswith :: "string \<Rightarrow> string list \<Rightarrow> bool" where
  "startswith s alts = (\<exists>x \<in> set alts. prefix x s)"

text \<open>
  The token that \<open>SessionManager.call_api\<close> hands on to the context: the test at the
  head of the function, on the path of the split URL and \<open>headers.get("authorization")\<close>.
\<close>

definition effective_token ::
  "string \<Rightarrow> (string \<times> string) list \<Rightarrow> string option \<Rightarrow> string option" where
  "effective_token path hdrs session_token =
     (if \<not> truthy session_token
         \<or> truthy (map_of hdrs ''authorization'')
         \<or> \<not> (endswith path [''/'', ''session'']
              \<or> startswith path [''/_next/data'', ''/c/'', ''/api/auth/callback/auth0''])
      then None else session_token)"

text \<open>\<open>get_sessions\<close>: the contexts of the pool, by position, that are available and
  not running.\<close>

definition get_sessions :: "ChatSession list \<Rightarrow> nat list" where
  "get_sessions ss = filter (\<lambda>i. available (ss ! i) \<and> \<not> running (ss ! i)) [0..<length ss]"

text \<open>
  \<open>get_session\<close>: a random eligible context or, when there is none, a sleep of three
  seconds and another try.  \<open>idle k\<close> is what the other tasks do to the contexts during
  the sleep that follows draw \<open>k\<close>.  Each retry awaits \<open>self.get_session()\<close> from inside
  the previous one, so the chain of coroutines grows by one frame per retry; \<open>depth\<close> is
  the number of activations, counting the current one, that can still make their calls
  under the interpreter's recursion limit, and an activation that cannot raises
  \<open>RecursionError\<close>.  The result
  is the exception, or the position of the chosen context and the next draw number,
  beside the contexts as they are then.
\<close>

fun get_session ::
  "(nat \<Rightarrow> nat) \<Rightarrow> (nat \<Rightarrow> ChatSession list \<Rightarrow> ChatSession list) \<Rightarrow> nat \<Rightarrow> nat \<Rightarrow> ChatSession list \<Rightarrow>
     (exn + nat \<times> nat) \<times> ChatSession list" where
  "get_session rnd idle k 0 ss = (Inl RecursionError, ss)"
| "get_session rnd idle k (Suc depth) ss =
     (let avail = get_sessions ss in
      if avail \<noteq> [] then (Inr (avail ! (rnd k mod length avail), Suc k), ss)
      else get_session rnd idle (Suc k) depth (idle k ss))"

declare get_session.simps [simp del]

text \<open>
  \<open>SessionManager.call_api\<close> up to the \<open>yield\<close> that reaches the caller.  \<open>urlsplit_path\<close>
  is \<open>urlsplit(url).path\<close> of the standard library, \<open>browser first\<close> is what the
  browser does during the attempt made with that value of \<open>first\<close>, and \<open>depth first\<close>
  the recursion depth left to \<open>get_session\<close> in that attempt.  The result is the
  exception raised to the caller, or the position of the context, the response yielded
  and the flag of \<open>call_api_enter\<close>.
\<close>

function call_api ::
  "(string \<Rightarrow> string) \<Rightarrow> (nat \<Rightarrow> nat) \<Rightarrow> (nat \<Rightarrow> ChatSession list \<Rightarrow> ChatSession list) \<Rightarrow>
   (bool \<Rightarrow> attempt) \<Rightarrow> (bool \<Rightarrow> nat) \<Rightarrow> nat \<Rightarrow> string \<Rightarrow> (string \<times> string) list \<Rightarrow>
   string option \<Rightarrow> bool \<Rightarrow> ChatSession list \<times> store \<Rightarrow>
     (exn + nat \<times> StreamResponse \<times> bool) \<times> (ChatSession list \<times> store)" where
  "call_api urlsplit_path rnd idle browser depth k url hdrs session_token first pool =
     (case get_session rnd idle k (depth first) (fst pool) of
        (Inl e, ss) \<Rightarrow> (Inl e, (ss, snd pool))
      | (Inr (i, k1), ss) \<Rightarrow>
          (let tok = effective_token (urlsplit_path url) hdrs session_token;
               r = call_api_enter (browser first) url tok 10 (ss ! i, snd pool);
               ss1 = ss[i := fst (snd r)];
               st1 = snd (snd r)
           in case fst r of
                Inl e \<Rightarrow> (Inl e, (ss1, st1))
              | Inr y \<Rightarrow>
                  if status (fst y) = 403 then
                    if \<not> first then (Inr (i, (fst y)\<lparr>status := 499\<rparr>, snd y), (ss1, st1))
                    else
                      (case call_api_exit (browser first) y (ss1 ! i) of
                         (Some e, c') \<Rightarrow> (Inl e, (ss1[i := c'], st1))
                       | (None, c') \<Rightarrow>
                           if status (fst y) = 403 \<and> first
                           then call_api urlsplit_path rnd idle browser depth k1 url hdrs tok False
                                  (ss1[i := c'], st1)
                           else (Inl RuntimeError, (ss1[i := c'], st1)))
                  else (Inr (i, fst y, snd y), (ss1, st1))))"
  by pat_completeness auto
termination
  by (relation "measure (\<lambda>(u, r, d, b, dp, k, url, h, t, first, p). if first then 1 else 0)") auto

declare call_api.simps [simp del]

section \<open>Derived notions and example states\<close>

text \<open>An entry is live at \<open>now\<close> when the expiry test of \<open>get_puid\<close> and
  \<open>get_cf_clearance\<close> (\<open>expires is not None and expires < time.time()\<close>) is false.\<close>

definition live :: "real \<Rightarrow> token_info \<Rightarrow> bool" where
  "live now info = (case expires info of None \<Rightarrow> True | Some e \<Rightarrow> \<not> e < now)"


text \<open>A clock that reads \<open>t\<close> at every call, and a \<open>random.choice\<close> that always draws
  the first key.\<close>

definition clock_at :: "real \<Rightarrow> nat \<Rightarrow> real" where
  "clock_at t k = t"

definition first_key :: "nat \<Rightarrow> nat" where
  "first_key k = 0"

definition store_a :: store where
  "store_a = \<lparr>manager = \<lparr>cf_clearances = [(''abc'', \<lparr>token = Some ''abc-99-a-b-c-d'', expires = Some 99\<rparr>)],
                          puids = [(''user'', \<lparr>token = Some ''user:5-x'', expires = Some 200\<rparr>)]\<rparr>,
              cookies_json = None\<rparr>"

definition store_b :: store where
  "store_b = \<lparr>manager = \<lparr>cf_clearances = [(''abc'', \<lparr>token = Some ''abc-100-a-b-c-d'', expires = Some 100\<rparr>)],
                          puids = [(''user'', \<lparr>token = Some ''user:5-x'', expires = Some 99\<rparr>)]\<rparr>,
              cookies_json = None\<rparr>"

definition store_c :: store where
  "store_c = \<lparr>manager = \<lparr>cf_clearances = [(''abc'', \<lparr>token = Some [], expires = None\<rparr>)], puids = []\<rparr>,
              cookies_json = None\<rparr>"

text \<open>A store whose only identity token never expires and has the empty string as its
  value, and a store that holds \<open>n\<close> tokens of each kind, all of them expired at 0.\<close>

definition store_e :: store where
  "store_e = \<lparr>manager = \<lparr>cf_clearances = [], puids = [(''user'', \<lparr>token = Some [], expires = None\<rparr>)]\<rparr>,
              cookies_json = None\<rparr>"

definition many_expired :: "nat \<Rightarrow> store" where
  "many_expired n =
     \<lparr>manager = \<lparr>cf_clearances = map (\<lambda>i. (replicate (Suc i) CHR ''c'',
                                             \<lparr>token = Some ''c-0-a-b-c-d'', expires = Some 0\<rparr>)) [0..<n],
                  puids = map (\<lambda>i. (replicate (Suc i) CHR ''u'',
                                     \<lparr>token = Some ''u:0-x'', expires = Some 0\<rparr>)) [0..<n]\<rparr>,
      cookies_json = None\<rparr>"

text \<open>A context that is ready and idle, and a browser that answers every call, the
  upstream status being 200.\<close>

definition session_ready :: ChatSession where
  "session_ready = \<lparr>available = True, running = False,
                     session_cf_clearance = ''abc-99-a-b-c-d'', scheduled = []\<rparr>"

definition attempt_ok :: attempt where
  "attempt_ok = \<lparr>set_cookie_r = Returned (), new_controller = Returned 1, tracked_fetch = Returned 2,
                  status_eval = Returned 200, headers_eval = Returned [],
                  get_cookie_r = Returned [], fetch_counter = Returned (),
                  abort_r = Returned (), dispose_r = Returned ()\<rparr>"

text \<open>Other tasks that leave the contexts as they are while \<open>get_session\<close> sleeps.\<close>

definition no_change :: "nat \<Rightarrow> ChatSession list \<Rightarrow> ChatSession list" where
  "no_change k ss = ss"

text \<open>\<open>urlsplit(url).path\<close> on a URL that is a bare path.\<close>

definition bare_path :: "string \<Rightarrow> string" where
  "bare_path url = url"

text \<open>A browser whose first attempt meets a 403 upstream and whose retry meets a 200,
  and one that meets a 403 both times.\<close>

definition browser_403_200 :: "bool \<Rightarrow> attempt" where
  "browser_403_200 first = (if first then attempt_ok\<lparr>status_eval := Returned 403\<rparr> else attempt_ok)"

definition browser_403_403 :: "bool \<Rightarrow> attempt" where
  "browser_403_403 first = attempt_ok\<lparr>status_eval := Returned 403\<rparr>"

definition browser_ok :: "bool \<Rightarrow> attempt" where
  "browser_ok first = attempt_ok"

text \<open>The response built from the answers of \<open>attempt_ok\<close> with upstream status
  \<open>st\<close>, the store after the clearance of \<open>session_ready\<close> has been deleted and the
  document saved, and a browser whose 403 attempt fails while the request is closed.\<close>

definition upstream_response :: "int \<Rightarrow> StreamResponse" where
  "upstream_response st = \<lparr>status = st, headers = [], controller = Some 1, response = Some 2, timeout = 10\<rparr>"

definition store_a_saved :: store where
  "store_a_saved =
     \<lparr>manager = \<lparr>cf_clearances = [],
                  puids = [(''user'', \<lparr>token = Some ''user:5-x'', expires = Some 200\<rparr>)]\<rparr>,
      cookies_json = Some \<lparr>cf_clearances = [],
                  puids = [(''user'', \<lparr>token = Some ''user:5-x'', expires = Some 200\<rparr>)]\<rparr>\<rparr>"

definition browser_403_close_fails :: "bool \<Rightarrow> attempt" where
  "browser_403_close_fails first = attempt_ok\<lparr>status_eval := Returned 403, fetch_counter := JSError\<rparr>"

text \<open>The chunk iterator over the body of \<open>upstream_response 200\<close>, a browser in which
  every read of a chunk runs into the per-chunk timeout, and one whose stream has ended.\<close>

definition chunk_iterator :: AsyncStreamIterator where
  "chunk_iterator = \<lparr>it_response = 2, it_timeout = 10, reader = None\<rparr>"

definition pull_timeout :: "nat \<Rightarrow> pull" where
  "pull_timeout k = \<lparr>getReader = InTime (Returned 3), reader_read = Late,
                      dispose_response = Returned (), dispose_reader = Returned ()\<rparr>"

definition pull_done :: "nat \<Rightarrow> pull" where
  "pull_done k = \<lparr>getReader = InTime (Returned 3), reader_read = InTime JSError,
                   dispose_response = Returned (), dispose_reader = Returned ()\<rparr>"

text \<open>A store whose file holds the same document as the object, with one clearance
  token that expired at 99.\<close>

definition store_d :: store where
  "store_d = \<lparr>manager = \<lparr>cf_clearances = [(''abc'', \<lparr>token = Some ''abc-99-a-b-c-d'', expires = Some 99\<rparr>)],
                          puids = []\<rparr>,
              cookies_json = Some \<lparr>cf_clearances = [(''abc'', \<lparr>token = Some ''abc-99-a-b-c-d'', expires = Some 99\<rparr>)],
                          puids = []\<rparr>\<rparr>"

text \<open>A recursion depth of 1000 left to \<open>get_session\<close> in either attempt.\<close>

definition depth_1000 :: "bool \<Rightarrow> nat" where
  "depth_1000 first = 1000"

section \<open>The credential store: selection of a random token\<close>

lemma map_of_del_key: "map_of (del_key k m) x = (if x = k then None else map_of m x)"
  by (induction m) (auto simp: del_key_def)

lemma length_del_key: "k \<in> fst ` set m \<Longrightarrow> length (del_key k m) < length m"
  unfolding del_key_def by (auto intro: length_filter_less)

lemma set_del_key: "set (del_key k m) \<subseteq> set m"
  by (auto simp: del_key_def)

lemma distinct_del_key: "distinct (map fst m) \<Longrightarrow> distinct (map fst (del_key k m))"
  by (simp add: del_key_def distinct_map_filter)

lemma length_del_key_distinct:
  "distinct (map fst m) \<Longrightarrow> length m \<le> Suc (length (del_key k m))"
proof (induction m)
  case Nil
  then show ?case by (simp add: del_key_def)
next
  case (Cons x m)
  show ?case
  proof (cases "fst x = k")
    case True
    with Cons.prems have "k \<notin> fst ` set m" by auto
    then have "del_key k m = m" by (auto simp: del_key_def filter_id_conv)
    with True show ?thesis by (simp add: del_key_def)
  next
    case False
    with Cons show ?thesis by (simp add: del_key_def)
  qed
qed

lemma pick_in_keys: "m \<noteq> [] \<Longrightarrow> map fst m ! (r mod length (map fst m)) \<in> fst ` set m"
  by (metis length_greater_0_conv length_map list.set_map mod_less_divisor nth_mem)

lemma map_of_pick:
  assumes "m \<noteq> []"
  shows "\<exists>info. map_of m (map fst m ! (r mod length (map fst m))) = Some info
      \<and> (map fst m ! (r mod length (map fst m)), info) \<in> set m"
proof -
  have "map fst m ! (r mod length (map fst m)) \<in> fst ` set m" using assms by (rule pick_in_keys)
  then obtain info where "map_of m (map fst m ! (r mod length (map fst m))) = Some info"
    by (metis domD dom_map_of_conv_image_fst)
  then show ?thesis by (blast dest: map_of_SomeD)
qed

lemma live_iff: "live now info \<longleftrightarrow> (\<forall>e. expires info = Some e \<longrightarrow> now \<le> e)"
  by (auto simp: live_def split: option.splits)

lemma not_live_iff: "\<not> live now info \<longleftrightarrow> (\<exists>e. expires info = Some e \<and> e < now)"
  by (auto simp: live_def split: option.splits)

text \<open>One activation of \<open>puid\<close> on a non-empty map: the drawn key is stored, and the
  activation returns its token, or calls itself on the same store (a live entry with
  an empty token), or calls itself after deleting the entry (an expired one).\<close>

lemma puid_step:
  assumes ne: "puids (manager s) \<noteq> []"
  shows "\<exists>uid info. (uid, info) \<in> set (puids (manager s)) \<and> map_of (puids (manager s)) uid = Some info \<and>
           puid rnd clock k (Suc d) s =
             (if live (clock k) info then
                if truthy (token info) then (Inr (the (token info)), s)
                else puid rnd clock (Suc k) d s
              else puid rnd clock (Suc k) d
                     (s\<lparr>manager := (manager s)\<lparr>puids := del_key uid (puids (manager s))\<rparr>\<rparr>))"
proof -
  define uid where "uid = fst (puids (manager s) ! (rnd k mod length (puids (manager s))))"
  from ne have lt: "rnd k mod length (puids (manager s)) < length (puids (manager s))" by simp
  from map_of_pick[OF ne, of "rnd k"] lt have
    "\<exists>info. map_of (puids (manager s)) uid = Some info \<and> (uid, info) \<in> set (puids (manager s))"
    by (simp add: uid_def)
  then obtain info where
    m: "map_of (puids (manager s)) uid = Some info" and i: "(uid, info) \<in> set (puids (manager s))"
    by blast
  from m have g: "get_puid (clock k) uid s =
            (if live (clock k) info then (token info, s)
             else (None, s\<lparr>manager := (manager s)\<lparr>puids := del_key uid (puids (manager s))\<rparr>\<rparr>))"
    by (simp add: get_puid_def live_def split: option.splits)
  have "puid rnd clock k (Suc d) s =
             (if live (clock k) info then
                if truthy (token info) then (Inr (the (token info)), s)
                else puid rnd clock (Suc k) d s
              else puid rnd clock (Suc k) d
                     (s\<lparr>manager := (manager s)\<lparr>puids := del_key uid (puids (manager s))\<rparr>\<rparr>))"
    using ne g lt by (simp add: puid.simps Let_def uid_def[symmetric] truthy_def)
  with m i show ?thesis by blast
qed

lemma puid_sound:
  "puid rnd clock k d s = (Inr v, s') \<Longrightarrow> v \<noteq> [] \<Longrightarrow>
     \<exists>j id info. map_of (puids (manager s)) id = Some info \<and> token info = Some v \<and> live (clock j) info"
proof (induction d arbitrary: k s)
  case 0
  then show ?case by (simp add: puid.simps split: if_splits)
next
  case (Suc d)
  show ?case
  proof (cases "puids (manager s) = []")
    case True
    with Suc.prems show ?thesis by (simp add: puid.simps)
  next
    case False
    from puid_step[OF False, of rnd clock k d] obtain uid info where
      i: "(uid, info) \<in> set (puids (manager s))" and m: "map_of (puids (manager s)) uid = Some info" and
      st: "puid rnd clock k (Suc d) s =
             (if live (clock k) info then
                if truthy (token info) then (Inr (the (token info)), s)
                else puid rnd clock (Suc k) d s
              else puid rnd clock (Suc k) d
                     (s\<lparr>manager := (manager s)\<lparr>puids := del_key uid (puids (manager s))\<rparr>\<rparr>))"
      by blast
    show ?thesis
    proof (cases "live (clock k) info")
      case True
      show ?thesis
      proof (cases "truthy (token info)")
        case T: True
        with True st Suc.prems have "v = the (token info)" by simp
        with T have "token info = Some v" by (auto simp: truthy_def split: option.splits)
        with m True show ?thesis by blast
      next
        case F: False
        with True st Suc.prems have "puid rnd clock (Suc k) d s = (Inr v, s')" by simp
        from Suc.IH[OF this Suc.prems(2)] show ?thesis .
      qed
    next
      case F: False
      let ?s1 = "s\<lparr>manager := (manager s)\<lparr>puids := del_key uid (puids (manager s))\<rparr>\<rparr>"
      from F st Suc.prems have "puid rnd clock (Suc k) d ?s1 = (Inr v, s')" by simp
      from Suc.IH[OF this Suc.prems(2)] obtain j id info' where
        h: "map_of (puids (manager ?s1)) id = Some info'" "token info' = Some v" "live (clock j) info'"
        by blast
      from h(1) have "map_of (puids (manager s)) id = Some info'"
        by (simp add: map_of_del_key split: if_splits)
      with h show ?thesis by blast
    qed
  qed
qed

lemma puid_outcome:
  "puid rnd clock k d s = (res, s') \<Longrightarrow>
     (res = Inl RecursionError \<and> puids (manager s') \<noteq> [])
     \<or> (res = Inr [] \<and> puids (manager s') = [])
     \<or> (\<exists>v. res = Inr v \<and> v \<noteq> [])"
proof (induction d arbitrary: k s)
  case 0
  then show ?case by (auto simp: puid.simps split: if_splits)
next
  case (Suc d)
  show ?case
  proof (cases "puids (manager s) = []")
    case True
    with Suc.prems show ?thesis by (auto simp: puid.simps)
  next
    case False
    from puid_step[OF False, of rnd clock k d] obtain uid info where
      st: "puid rnd clock k (Suc d) s =
             (if live (clock k) info then
                if truthy (token info) then (Inr (the (token info)), s)
                else puid rnd clock (Suc k) d s
              else puid rnd clock (Suc k) d
                     (s\<lparr>manager := (manager s)\<lparr>puids := del_key uid (puids (manager s))\<rparr>\<rparr>))"
      by blast
    show ?thesis
    proof (cases "live (clock k) info \<and> truthy (token info)")
      case True
      with st Suc.prems have "res = Inr (the (token info))" by simp
      moreover from True have "the (token info) \<noteq> []" by (auto simp: truthy_def split: option.splits)
      ultimately show ?thesis by blast
    next
      case False
      with st Suc.prems obtain s1 where "puid rnd clock (Suc k) d s1 = (res, s')"
        by (auto split: if_splits)
      then show ?thesis by (rule Suc.IH)
    qed
  qed
qed

lemma puid_keeps_live:
  "map_of (puids (manager s)) key = Some info0 \<Longrightarrow> \<forall>j. live (clock j) info0 \<Longrightarrow>
     puid rnd clock k d s = (res, s') \<Longrightarrow> map_of (puids (manager s')) key = Some info0"
proof (induction d arbitrary: k s)
  case 0
  then show ?case by (auto simp: puid.simps split: if_splits)
next
  case (Suc d)
  from Suc.prems(1) have ne: "puids (manager s) \<noteq> []" by auto
  from puid_step[OF ne, of rnd clock k d] obtain uid info where
    m: "map_of (puids (manager s)) uid = Some info" and
    st: "puid rnd clock k (Suc d) s =
           (if live (clock k) info then
              if truthy (token info) then (Inr (the (token info)), s)
              else puid rnd clock (Suc k) d s
            else puid rnd clock (Suc k) d
                   (s\<lparr>manager := (manager s)\<lparr>puids := del_key uid (puids (manager s))\<rparr>\<rparr>))"
    by blast
  show ?case
  proof (cases "live (clock k) info")
    case True
    show ?thesis
    proof (cases "truthy (token info)")
      case T: True
      with True st Suc.prems show ?thesis by simp
    next
      case F: False
      with True st Suc.prems(3) have "puid rnd clock (Suc k) d s = (res, s')" by simp
      from Suc.IH[OF Suc.prems(1,2) this] show ?thesis .
    qed
  next
    case False
    let ?s1 = "s\<lparr>manager := (manager s)\<lparr>puids := del_key uid (puids (manager s))\<rparr>\<rparr>"
    from False Suc.prems(2) m Suc.prems(1) have "key \<noteq> uid" by auto
    with Suc.prems(1) have a: "map_of (puids (manager ?s1)) key = Some info0"
      by (simp add: map_of_del_key)
    from False st Suc.prems(3) have "puid rnd clock (Suc k) d ?s1 = (res, s')" by simp
    from Suc.IH[OF a Suc.prems(2) this] show ?thesis .
  qed
qed

lemma puid_returns:
  "\<forall>kv \<in> set (puids (manager s)). \<forall>j. live (clock j) (snd kv) \<longrightarrow> truthy (token (snd kv)) \<Longrightarrow>
   length (puids (manager s)) \<le> d \<Longrightarrow>
     \<exists>v s'. puid rnd clock k d s = (Inr v, s')"
proof (induction d arbitrary: k s)
  case 0
  then show ?case by (simp add: puid.simps)
next
  case (Suc d)
  show ?case
  proof (cases "puids (manager s) = []")
    case True
    then show ?thesis by (simp add: puid.simps)
  next
    case False
    from puid_step[OF False, of rnd clock k d] obtain uid info where
      i: "(uid, info) \<in> set (puids (manager s))" and
      st: "puid rnd clock k (Suc d) s =
             (if live (clock k) info then
                if truthy (token info) then (Inr (the (token info)), s)
                else puid rnd clock (Suc k) d s
              else puid rnd clock (Suc k) d
                     (s\<lparr>manager := (manager s)\<lparr>puids := del_key uid (puids (manager s))\<rparr>\<rparr>))"
      by blast
    from Suc.prems(1) i have t: "live (clock k) info \<longrightarrow> truthy (token info)" by force
    show ?thesis
    proof (cases "live (clock k) info")
      case True
      with t st show ?thesis by simp
    next
      case F: False
      let ?s1 = "s\<lparr>manager := (manager s)\<lparr>puids := del_key uid (puids (manager s))\<rparr>\<rparr>"
      from i have "uid \<in> fst ` set (puids (manager s))" by force
      from length_del_key[OF this] Suc.prems(2) have l: "length (puids (manager ?s1)) \<le> d" by simp
      have "\<forall>kv \<in> set (puids (manager ?s1)). \<forall>j. live (clock j) (snd kv) \<longrightarrow> truthy (token (snd kv))"
        using Suc.prems(1) set_del_key[of uid "puids (manager s)"] by auto
      from Suc.IH[OF this l, of "Suc k"] F st show ?thesis by simp
    qed
  qed
qed

lemma puid_all_expired:
  "\<forall>kv \<in> set (puids (manager s)). \<exists>e. expires (snd kv) = Some e \<and> (\<forall>j. e < clock j) \<Longrightarrow>
   length (puids (manager s)) \<le> d \<Longrightarrow>
     puid rnd clock k d s = (Inr [], s\<lparr>manager := (manager s)\<lparr>puids := []\<rparr>\<rparr>)"
proof (induction d arbitrary: k s)
  case 0
  then have "puids (manager s) = []" by simp
  then have "s\<lparr>manager := (manager s)\<lparr>puids := []\<rparr>\<rparr> = s" by simp
  with \<open>puids (manager s) = []\<close> show ?case by (simp add: puid.simps)
next
  case (Suc d)
  show ?case
  proof (cases "puids (manager s) = []")
    case True
    then have "s\<lparr>manager := (manager s)\<lparr>puids := []\<rparr>\<rparr> = s" by simp
    with True show ?thesis by (simp add: puid.simps)
  next
    case False
    from puid_step[OF False, of rnd clock k d] obtain uid info where
      i: "(uid, info) \<in> set (puids (manager s))" and
      st: "puid rnd clock k (Suc d) s =
             (if live (clock k) info then
                if truthy (token info) then (Inr (the (token info)), s)
                else puid rnd clock (Suc k) d s
              else puid rnd clock (Suc k) d
                     (s\<lparr>manager := (manager s)\<lparr>puids := del_key uid (puids (manager s))\<rparr>\<rparr>))"
      by blast
    from Suc.prems(1) i have F: "\<not> live (clock k) info" by (force simp: live_def)
    let ?s1 = "s\<lparr>manager := (manager s)\<lparr>puids := del_key uid (puids (manager s))\<rparr>\<rparr>"
    from i have "uid \<in> fst ` set (puids (manager s))" by force
    from length_del_key[OF this] Suc.prems(2) have l: "length (puids (manager ?s1)) \<le> d" by simp
    have "\<forall>kv \<in> set (puids (manager ?s1)). \<exists>e. expires (snd kv) = Some e \<and> (\<forall>j. e < clock j)"
      using Suc.prems(1) set_del_key[of uid "puids (manager s)"] by auto
    from Suc.IH[OF this l, of "Suc k"] F st show ?thesis by simp
  qed
qed

lemma puid_overflow:
  "\<forall>kv \<in> set (puids (manager s)). \<exists>e. expires (snd kv) = Some e \<and> (\<forall>j. e < clock j) \<Longrightarrow>
   distinct (map fst (puids (manager s))) \<Longrightarrow> d < length (puids (manager s)) \<Longrightarrow>
     fst (puid rnd clock k d s) = Inl RecursionError"
proof (induction d arbitrary: k s)
  case 0
  then show ?case by (auto simp: puid.simps)
next
  case (Suc d)
  from Suc.prems(3) have ne: "puids (manager s) \<noteq> []" by auto
  from puid_step[OF ne, of rnd clock k d] obtain uid info where
    i: "(uid, info) \<in> set (puids (manager s))" and
    st: "puid rnd clock k (Suc d) s =
           (if live (clock k) info then
              if truthy (token info) then (Inr (the (token info)), s)
              else puid rnd clock (Suc k) d s
            else puid rnd clock (Suc k) d
                   (s\<lparr>manager := (manager s)\<lparr>puids := del_key uid (puids (manager s))\<rparr>\<rparr>))"
    by blast
  from Suc.prems(1) i have F: "\<not> live (clock k) info" by (force simp: live_def)
  let ?s1 = "s\<lparr>manager := (manager s)\<lparr>puids := del_key uid (puids (manager s))\<rparr>\<rparr>"
  from length_del_key_distinct[OF Suc.prems(2), of uid] Suc.prems(3)
  have l: "d < length (puids (manager ?s1))" by simp
  have e: "\<forall>kv \<in> set (puids (manager ?s1)). \<exists>e. expires (snd kv) = Some e \<and> (\<forall>j. e < clock j)"
    using Suc.prems(1) set_del_key[of uid "puids (manager s)"] by auto
  have dd: "distinct (map fst (puids (manager ?s1)))"
    using Suc.prems(2) by (simp add: distinct_del_key)
  from Suc.IH[OF e dd l, of "Suc k"] F st show ?case by simp
qed

lemma puid_never_returned:
  "puids (manager s) \<noteq> [] \<Longrightarrow>
   \<forall>kv \<in> set (puids (manager s)). (\<forall>j. live (clock j) (snd kv)) \<and> \<not> truthy (token (snd kv)) \<Longrightarrow>
     puid rnd clock k d s = (Inl RecursionError, s)"
proof (induction d arbitrary: k)
  case 0
  then show ?case by (simp add: puid.simps)
next
  case (Suc d)
  from puid_step[OF Suc.prems(1), of rnd clock k d] obtain uid info where
    i: "(uid, info) \<in> set (puids (manager s))" and
    st: "puid rnd clock k (Suc d) s =
           (if live (clock k) info then
              if truthy (token info) then (Inr (the (token info)), s)
              else puid rnd clock (Suc k) d s
            else puid rnd clock (Suc k) d
                   (s\<lparr>manager := (manager s)\<lparr>puids := del_key uid (puids (manager s))\<rparr>\<rparr>))"
    by blast
  from Suc.prems(2) i have "live (clock k) info" "\<not> truthy (token info)" by force+
  with st Suc.IH[OF Suc.prems, of "Suc k"] show ?case by simp
qed

text \<open>One activation of \<open>cf_clearance\<close> on a non-empty map: the drawn key is stored, and the
  activation returns its token, or calls itself on the same store (a live entry with
  an empty token), or calls itself after deleting the entry (an expired one).\<close>

lemma cf_clearance_step:
  assumes ne: "cf_clearances (manager s) \<noteq> []"
  shows "\<exists>cid info. (cid, info) \<in> set (cf_clearances (manager s)) \<and> map_of (cf_clearances (manager s)) cid = Some info \<and>
           cf_clearance rnd clock k (Suc d) s =
             (if live (clock k) info then
                if truthy (token info) then (Inr (the (token info)), s)
                else cf_clearance rnd clock (Suc k) d s
              else cf_clearance rnd clock (Suc k) d
                     (s\<lparr>manager := (manager s)\<lparr>cf_clearances := del_key cid (cf_clearances (manager s))\<rparr>\<rparr>))"
proof -
  define cid where "cid = fst (cf_clearances (manager s) ! (rnd k mod length (cf_clearances (manager s))))"
  from ne have lt: "rnd k mod length (cf_clearances (manager s)) < length (cf_clearances (manager s))" by simp
  from map_of_pick[OF ne, of "rnd k"] lt have
    "\<exists>info. map_of (cf_clearances (manager s)) cid = Some info \<and> (cid, info) \<in> set (cf_clearances (manager s))"
    by (simp add: cid_def)
  then obtain info where
    m: "map_of (cf_clearances (manager s)) cid = Some info" and i: "(cid, info) \<in> set (cf_clearances (manager s))"
    by blast
  from m have g: "get_cf_clearance (clock k) cid s =
            (if live (clock k) info then (token info, s)
             else (None, s\<lparr>manager := (manager s)\<lparr>cf_clearances := del_key cid (cf_clearances (manager s))\<rparr>\<rparr>))"
    by (simp add: get_cf_clearance_def live_def split: option.splits)
  have "cf_clearance rnd clock k (Suc d) s =
             (if live (clock k) info then
                if truthy (token info) then (Inr (the (token info)), s)
                else cf_clearance rnd clock (Suc k) d s
              else cf_clearance rnd clock (Suc k) d
                     (s\<lparr>manager := (manager s)\<lparr>cf_clearances := del_key cid (cf_clearances (manager s))\<rparr>\<rparr>))"
    using ne g lt by (simp add: cf_clearance.simps Let_def cid_def[symmetric] truthy_def)
  with m i show ?thesis by blast
qed

lemma cf_clearance_sound:
  "cf_clearance rnd clock k d s = (Inr v, s') \<Longrightarrow> v \<noteq> [] \<Longrightarrow>
     \<exists>j id info. map_of (cf_clearances (manager s)) id = Some info \<and> token info = Some v \<and> live (clock j) info"
proof (induction d arbitrary: k s)
  case 0
  then show ?case by (simp add: cf_clearance.simps split: if_splits)
next
  case (Suc d)
  show ?case
  proof (cases "cf_clearances (manager s) = []")
    case True
    with Suc.prems show ?thesis by (simp add: cf_clearance.simps)
  next
    case False
    from cf_clearance_step[OF False, of rnd clock k d] obtain cid info where
      i: "(cid, info) \<in> set (cf_clearances (manager s))" and m: "map_of (cf_clearances (manager s)) cid = Some info" and
      st: "cf_clearance rnd clock k (Suc d) s =
             (if live (clock k) info then
                if truthy (token info) then (Inr (the (token info)), s)
                else cf_clearance rnd clock (Suc k) d s
              else cf_clearance rnd clock (Suc k) d
                     (s\<lparr>manager := (manager s)\<lparr>cf_clearances := del_key cid (cf_clearances (manager s))\<rparr>\<rparr>))"
      by blast
    show ?thesis
    proof (cases "live (clock k) info")
      case True
      show ?thesis
      proof (cases "truthy (token info)")
        case T: True
        with True st Suc.prems have "v = the (token info)" by simp
        with T have "token info = Some v" by (auto simp: truthy_def split: option.splits)
        with m True show ?thesis by blast
      next
        case F: False
        with True st Suc.prems have "cf_clearance rnd clock (Suc k) d s = (Inr v, s')" by simp
        from Suc.IH[OF this Suc.prems(2)] show ?thesis .
      qed
    next
      case F: False
      let ?s1 = "s\<lparr>manager := (manager s)\<lparr>cf_clearances := del_key cid (cf_clearances (manager s))\<rparr>\<rparr>"
      from F st Suc.prems have "cf_clearance rnd clock (Suc k) d ?s1 = (Inr v, s')" by simp
      from Suc.IH[OF this Suc.prems(2)] obtain j id info' where
        h: "map_of (cf_clearances (manager ?s1)) id = Some info'" "token info' = Some v" "live (clock j) info'"
        by blast
      from h(1) have "map_of (cf_clearances (manager s)) id = Some info'"
        by (simp add: map_of_del_key split: if_splits)
      with h show ?thesis by blast
    qed
  qed
qed

lemma cf_clearance_outcome:
  "cf_clearance rnd clock k d s = (res, s') \<Longrightarrow>
     (res = Inl RecursionError \<and> cf_clearances (manager s') \<noteq> [])
     \<or> (res = Inr [] \<and> cf_clearances (manager s') = [])
     \<or> (\<exists>v. res = Inr v \<and> v \<noteq> [])"
proof (induction d arbitrary: k s)
  case 0
  then show ?case by (auto simp: cf_clearance.simps split: if_splits)
next
  case (Suc d)
  show ?case
  proof (cases "cf_clearances (manager s) = []")
    case True
    with Suc.prems show ?thesis by (auto simp: cf_clearance.simps)
  next
    case False
    from cf_clearance_step[OF False, of rnd clock k d] obtain cid info where
      st: "cf_clearance rnd clock k (Suc d) s =
             (if live (clock k) info then
                if truthy (token info) then (Inr (the (token info)), s)
                else cf_clearance rnd clock (Suc k) d s
              else cf_clearance rnd clock (Suc k) d
                     (s\<lparr>manager := (manager s)\<lparr>cf_clearances := del_key cid (cf_clearances (manager s))\<rparr>\<rparr>))"
      by blast
    show ?thesis
    proof (cases "live (clock k) info \<and> truthy (token info)")
      case True
      with st Suc.prems have "res = Inr (the (token info))" by simp
      moreover from True have "the (token info) \<noteq> []" by (auto simp: truthy_def split: option.splits)
      ultimately show ?thesis by blast
    next
      case False
      with st Suc.prems obtain s1 where "cf_clearance rnd clock (Suc k) d s1 = (res, s')"
        by (auto split: if_splits)
      then show ?thesis by (rule Suc.IH)
    qed
  qed
qed

lemma cf_clearance_keeps_live:
  "map_of (cf_clearances (manager s)) key = Some info0 \<Longrightarrow> \<forall>j. live (clock j) info0 \<Longrightarrow>
     cf_clearance rnd clock k d s = (res, s') \<Longrightarrow> map_of (cf_clearances (manager s')) key = Some info0"
proof (induction d arbitrary: k s)
  case 0
  then show ?case by (auto simp: cf_clearance.simps split: if_splits)
next
  case (Suc d)
  from Suc.prems(1) have ne: "cf_clearances (manager s) \<noteq> []" by auto
  from cf_clearance_step[OF ne, of rnd clock k d] obtain cid info where
    m: "map_of (cf_clearances (manager s)) cid = Some info" and
    st: "cf_clearance rnd clock k (Suc d) s =
           (if live (clock k) info then
              if truthy (token info) then (Inr (the (token info)), s)
              else cf_clearance rnd clock (Suc k) d s
            else cf_clearance rnd clock (Suc k) d
                   (s\<lparr>manager := (manager s)\<lparr>cf_clearances := del_key cid (cf_clearances (manager s))\<rparr>\<rparr>))"
    by blast
  show ?case
  proof (cases "live (clock k) info")
    case True
    show ?thesis
    proof (cases "truthy (token info)")
      case T: True
      with True st Suc.prems show ?thesis by simp
    next
      case F: False
      with True st Suc.prems(3) have "cf_clearance rnd clock (Suc k) d s = (res, s')" by simp
      from Suc.IH[OF Suc.prems(1,2) this] show ?thesis .
    qed
  next
    case False
    let ?s1 = "s\<lparr>manager := (manager s)\<lparr>cf_clearances := del_key cid (cf_clearances (manager s))\<rparr>\<rparr>"
    from False Suc.prems(2) m Suc.prems(1) have "key \<noteq> cid" by auto
    with Suc.prems(1) have a: "map_of (cf_clearances (manager ?s1)) key = Some info0"
      by (simp add: map_of_del_key)
    from False st Suc.prems(3) have "cf_clearance rnd clock (Suc k) d ?s1 = (res, s')" by simp
    from Suc.IH[OF a Suc.prems(2) this] show ?thesis .
  qed
qed

lemma cf_clearance_returns:
  "\<forall>kv \<in> set (cf_clearances (manager s)). \<forall>j. live (clock j) (snd kv) \<longrightarrow> truthy (token (snd kv)) \<Longrightarrow>
   length (cf_clearances (manager s)) \<le> d \<Longrightarrow>
     \<exists>v s'. cf_clearance rnd clock k d s = (Inr v, s')"
proof (induction d arbitrary: k s)
  case 0
  then show ?case by (simp add: cf_clearance.simps)
next
  case (Suc d)
  show ?case
  proof (cases "cf_clearances (manager s) = []")
    case True
    then show ?thesis by (simp add: cf_clearance.simps)
  next
    case False
    from cf_clearance_step[OF False, of rnd clock k d] obtain cid info where
      i: "(cid, info) \<in> set (cf_clearances (manager s))" and
      st: "cf_clearance rnd clock k (Suc d) s =
             (if live (clock k) info then
                if truthy (token info) then (Inr (the (token info)), s)
                else cf_clearance rnd clock (Suc k) d s
              else cf_clearance rnd clock (Suc k) d
                     (s\<lparr>manager := (manager s)\<lparr>cf_clearances := del_key cid (cf_clearances (manager s))\<rparr>\<rparr>))"
      by blast
    from Suc.prems(1) i have t: "live (clock k) info \<longrightarrow> truthy (token info)" by force
    show ?thesis
    proof (cases "live (clock k) info")
      case True
      with t st show ?thesis by simp
    next
      case F: False
      let ?s1 = "s\<lparr>manager := (manager s)\<lparr>cf_clearances := del_key cid (cf_clearances (manager s))\<rparr>\<rparr>"
      from i have "cid \<in> fst ` set (cf_clearances (manager s))" by force
      from length_del_key[OF this] Suc.prems(2) have l: "length (cf_clearances (manager ?s1)) \<le> d" by simp
      have "\<forall>kv \<in> set (cf_clearances (manager ?s1)). \<forall>j. live (clock j) (snd kv) \<longrightarrow> truthy (token (snd kv))"
        using Suc.prems(1) set_del_key[of cid "cf_clearances (manager s)"] by auto
      from Suc.IH[OF this l, of "Suc k"] F st show ?thesis by simp
    qed
  qed
qed

lemma cf_clearance_all_expired:
  "\<forall>kv \<in> set (cf_clearances (manager s)). \<exists>e. expires (snd kv) = Some e \<and> (\<forall>j. e < clock j) \<Longrightarrow>
   length (cf_clearances (manager s)) \<le> d \<Longrightarrow>
     cf_clearance rnd clock k d s = (Inr [], s\<lparr>manager := (manager s)\<lparr>cf_clearances := []\<rparr>\<rparr>)"
proof (induction d arbitrary: k s)
  case 0
  then have "cf_clearances (manager s) = []" by simp
  then have "s\<lparr>manager := (manager s)\<lparr>cf_clearances := []\<rparr>\<rparr> = s" by simp
  with \<open>cf_clearances (manager s) = []\<close> show ?case by (simp add: cf_clearance.simps)
next
  case (Suc d)
  show ?case
  proof (cases "cf_clearances (manager s) = []")
    case True
    then have "s\<lparr>manager := (manager s)\<lparr>cf_clearances := []\<rparr>\<rparr> = s" by simp
    with True show ?thesis by (simp add: cf_clearance.simps)
  next
    case False
    from cf_clearance_step[OF False, of rnd clock k d] obtain cid info where
      i: "(cid, info) \<in> set (cf_clearances (manager s))" and
      st: "cf_clearance rnd clock k (Suc d) s =
             (if live (clock k) info then
                if truthy (token info) then (Inr (the (token info)), s)
                else cf_clearance rnd clock (Suc k) d s
              else cf_clearance rnd clock (Suc k) d
                     (s\<lparr>manager := (manager s)\<lparr>cf_clearances := del_key cid (cf_clearances (manager s))\<rparr>\<rparr>))"
      by blast
    from Suc.prems(1) i have F: "\<not> live (clock k) info" by (force simp: live_def)
    let ?s1 = "s\<lparr>manager := (manager s)\<lparr>cf_clearances := del_key cid (cf_clearances (manager s))\<rparr>\<rparr>"
    from i have "cid \<in> fst ` set (cf_clearances (manager s))" by force
    from length_del_key[OF this] Suc.prems(2) have l: "length (cf_clearances (manager ?s1)) \<le> d" by simp
    have "\<forall>kv \<in> set (cf_clearances (manager ?s1)). \<exists>e. expires (snd kv) = Some e \<and> (\<forall>j. e < clock j)"
      using Suc.prems(1) set_del_key[of cid "cf_clearances (manager s)"] by auto
    from Suc.IH[OF this l, of "Suc k"] F st show ?thesis by simp
  qed
qed

lemma cf_clearance_overflow:
  "\<forall>kv \<in> set (cf_clearances (manager s)). \<exists>e. expires (snd kv) = Some e \<and> (\<forall>j. e < clock j) \<Longrightarrow>
   distinct (map fst (cf_clearances (manager s))) \<Longrightarrow> d < length (cf_clearances (manager s)) \<Longrightarrow>
     fst (cf_clearance rnd clock k d s) = Inl RecursionError"
proof (induction d arbitrary: k s)
  case 0
  then show ?case by (auto simp: cf_clearance.simps)
next
  case (Suc d)
  from Suc.prems(3) have ne: "cf_clearances (manager s) \<noteq> []" by auto
  from cf_clearance_step[OF ne, of rnd clock k d] obtain cid info where
    i: "(cid, info) \<in> set (cf_clearances (manager s))" and
    st: "cf_clearance rnd clock k (Suc d) s =
           (if live (clock k) info then
              if truthy (token info) then (Inr (the (token info)), s)
              else cf_clearance rnd clock (Suc k) d s
            else cf_clearance rnd clock (Suc k) d
                   (s\<lparr>manager := (manager s)\<lparr>cf_clearances := del_key cid (cf_clearances (manager s))\<rparr>\<rparr>))"
    by blast
  from Suc.prems(1) i have F: "\<not> live (clock k) info" by (force simp: live_def)
  let ?s1 = "s\<lparr>manager := (manager s)\<lparr>cf_clearances := del_key cid (cf_clearances (manager s))\<rparr>\<rparr>"
  from length_del_key_distinct[OF Suc.prems(2), of cid] Suc.prems(3)
  have l: "d < length (cf_clearances (manager ?s1))" by simp
  have e: "\<forall>kv \<in> set (cf_clearances (manager ?s1)). \<exists>e. expires (snd kv) = Some e \<and> (\<forall>j. e < clock j)"
    using Suc.prems(1) set_del_key[of cid "cf_clearances (manager s)"] by auto
  have dd: "distinct (map fst (cf_clearances (manager ?s1)))"
    using Suc.prems(2) by (simp add: distinct_del_key)
  from Suc.IH[OF e dd l, of "Suc k"] F st show ?case by simp
qed

lemma cf_clearance_never_returned:
  "cf_clearances (manager s) \<noteq> [] \<Longrightarrow>
   \<forall>kv \<in> set (cf_clearances (manager s)). (\<forall>j. live (clock j) (snd kv)) \<and> \<not> truthy (token (snd kv)) \<Longrightarrow>
     cf_clearance rnd clock k d s = (Inl RecursionError, s)"
proof (induction d arbitrary: k)
  case 0
  then show ?case by (simp add: cf_clearance.simps)
next
  case (Suc d)
  from cf_clearance_step[OF Suc.prems(1), of rnd clock k d] obtain cid info where
    i: "(cid, info) \<in> set (cf_clearances (manager s))" and
    st: "cf_clearance rnd clock k (Suc d) s =
           (if live (clock k) info then
              if truthy (token info) then (Inr (the (token info)), s)
              else cf_clearance rnd clock (Suc k) d s
            else cf_clearance rnd clock (Suc k) d
                   (s\<lparr>manager := (manager s)\<lparr>cf_clearances := del_key cid (cf_clearances (manager s))\<rparr>\<rparr>))"
    by blast
  from Suc.prems(2) i have "live (clock k) info" "\<not> truthy (token info)" by force+
  with st Suc.IH[OF Suc.prems, of "Suc k"] show ?case by simp
qed


lemma puid_store_a: "puid first_key (clock_at 100) 0 (Suc d) store_a = (Inr ''user:5-x'', store_a)"
  by (simp add: puid.simps store_a_def get_puid_def truthy_def clock_at_def first_key_def)

lemma cf_clearance_store_b:
  "cf_clearance first_key (clock_at 100) 0 (Suc d) store_b = (Inr ''abc-100-a-b-c-d'', store_b)"
  by (simp add: cf_clearance.simps store_b_def get_cf_clearance_def truthy_def clock_at_def first_key_def)

lemma many_expired_facts:
  "length (puids (manager (many_expired n))) = n"
  "length (cf_clearances (manager (many_expired n))) = n"
  "distinct (map fst (puids (manager (many_expired n))))"
  "distinct (map fst (cf_clearances (manager (many_expired n))))"
  "\<forall>kv \<in> set (puids (manager (many_expired n))). \<exists>e. expires (snd kv) = Some e \<and> (\<forall>j. e < clock_at 100 j)"
  "\<forall>kv \<in> set (cf_clearances (manager (many_expired n))). \<exists>e. expires (snd kv) = Some e \<and> (\<forall>j. e < clock_at 100 j)"
  "list_all (\<lambda>kv. truthy (token (snd kv))) (puids (manager (many_expired n)))"
  "list_all (\<lambda>kv. truthy (token (snd kv))) (cf_clearances (manager (many_expired n)))"
proof -
  have inj: "inj_on (\<lambda>i. c # replicate i c) A" for c :: char and A
    by (rule inj_onI) (metis length_replicate list.inject)
  show "length (puids (manager (many_expired n))) = n"
    "length (cf_clearances (manager (many_expired n))) = n"
    by (simp_all add: many_expired_def)
  show "distinct (map fst (puids (manager (many_expired n))))"
    "distinct (map fst (cf_clearances (manager (many_expired n))))"
    by (simp_all add: many_expired_def distinct_map comp_def inj)
  show "\<forall>kv \<in> set (puids (manager (many_expired n))). \<exists>e. expires (snd kv) = Some e \<and> (\<forall>j. e < clock_at 100 j)"
    "\<forall>kv \<in> set (cf_clearances (manager (many_expired n))). \<exists>e. expires (snd kv) = Some e \<and> (\<forall>j. e < clock_at 100 j)"
    by (simp_all add: many_expired_def clock_at_def)
  show "list_all (\<lambda>kv. truthy (token (snd kv))) (puids (manager (many_expired n)))"
    "list_all (\<lambda>kv. truthy (token (snd kv))) (cf_clearances (manager (many_expired n)))"
    by (simp_all add: many_expired_def list_all_iff truthy_def)
qed

lemma puid_valid_choice:
  assumes t: "list_all (\<lambda>kv. live now (snd kv) \<longrightarrow> truthy (token (snd kv))) (puids (manager s))"
    and l: "length (puids (manager s)) \<le> d"
    and m: "map_of (puids (manager s)) vkey = Some vinfo" and v: "live now vinfo"
  shows "\<exists>v s' key info. puid rnd (clock_at now) k d s = (Inr v, s') \<and> v \<noteq> []
           \<and> map_of (puids (manager s)) key = Some info \<and> token info = Some v \<and> live now info"
proof -
  from t have "\<forall>kv \<in> set (puids (manager s)).
                 \<forall>j. live (clock_at now j) (snd kv) \<longrightarrow> truthy (token (snd kv))"
    by (simp add: list_all_iff clock_at_def)
  from puid_returns[OF this l] obtain v s' where r: "puid rnd (clock_at now) k d s = (Inr v, s')"
    by blast
  from v have "\<forall>j. live (clock_at now j) vinfo" by (simp add: clock_at_def)
  from puid_keeps_live[OF m this r] have "puids (manager s') \<noteq> []" by auto
  with puid_outcome[OF r] have ne: "v \<noteq> []" by auto
  from puid_sound[OF r ne] obtain key info where
    "map_of (puids (manager s)) key = Some info" "token info = Some v" "live now info"
    by (auto simp: clock_at_def)
  with r ne show ?thesis by blast
qed

lemma cf_clearance_valid_choice:
  assumes t: "list_all (\<lambda>kv. live now (snd kv) \<longrightarrow> truthy (token (snd kv))) (cf_clearances (manager s))"
    and l: "length (cf_clearances (manager s)) \<le> d"
    and m: "map_of (cf_clearances (manager s)) vkey = Some vinfo" and v: "live now vinfo"
  shows "\<exists>v s' key info. cf_clearance rnd (clock_at now) k d s = (Inr v, s') \<and> v \<noteq> []
           \<and> map_of (cf_clearances (manager s)) key = Some info \<and> token info = Some v \<and> live now info"
proof -
  from t have "\<forall>kv \<in> set (cf_clearances (manager s)).
                 \<forall>j. live (clock_at now j) (snd kv) \<longrightarrow> truthy (token (snd kv))"
    by (simp add: list_all_iff clock_at_def)
  from cf_clearance_returns[OF this l] obtain v s' where r: "cf_clearance rnd (clock_at now) k d s = (Inr v, s')"
    by blast
  from v have "\<forall>j. live (clock_at now j) vinfo" by (simp add: clock_at_def)
  from cf_clearance_keeps_live[OF m this r] have "cf_clearances (manager s') \<noteq> []" by auto
  with cf_clearance_outcome[OF r] have ne: "v \<noteq> []" by auto
  from cf_clearance_sound[OF r ne] obtain key info where
    "map_of (cf_clearances (manager s)) key = Some info" "token info = Some v" "live now info"
    by (auto simp: clock_at_def)
  with r ne show ?thesis by blast
qed

text \<open>
  Claim C4, as the code has it.  \<open>now\<close> is the clock reading and \<open>d\<close> the recursion
  depth left to the property.  A non-empty value returned by the \<open>puid\<close> or
  \<open>cf_clearance\<close> property is the token of a stored entry that is live at \<open>now\<close>: it has
  no expiry or \<open>now \<le> expires\<close> (an entry with \<open>expires = now\<close> is still returned; only
  \<open>expires < now\<close> is evicted).  When every live entry carries a non-empty token and
  the map has no more than \<open>d\<close> entries, the property returns the token of a live entry
  if there is one.  When no stored entry is live and the map has no more than \<open>d\<close>
  entries, it returns the empty string and leaves the token map empty; and it returns
  the empty string only when no stored entry is live.
\<close>

theorem random_valid_token:
  "(puid rnd (clock_at now) k d s = (Inr v, s') \<and> v \<noteq> [] \<longrightarrow>
      (\<exists>key info. map_of (puids (manager s)) key = Some info \<and> token info = Some v \<and> live now info))
   \<and> (list_all (\<lambda>kv. live now (snd kv) \<longrightarrow> truthy (token (snd kv))) (puids (manager s)) \<and> length (puids (manager s)) \<le> d
        \<and> map_of (puids (manager s)) keyp = Some infop \<and> live now infop \<longrightarrow>
      (\<exists>v s' key info. puid rnd (clock_at now) k d s = (Inr v, s') \<and> v \<noteq> []
           \<and> map_of (puids (manager s)) key = Some info \<and> token info = Some v \<and> live now info))
   \<and> (list_all (\<lambda>kv. \<not> live now (snd kv)) (puids (manager s)) \<and> length (puids (manager s)) \<le> d \<longrightarrow>
      puid rnd (clock_at now) k d s = (Inr [], s\<lparr>manager := (manager s)\<lparr>puids := []\<rparr>\<rparr>))
   \<and> (puid rnd (clock_at now) k d s = (Inr [], s') \<and> map_of (puids (manager s)) keyp = Some infop \<longrightarrow>
      \<not> live now infop)
   \<and> (cf_clearance rnd (clock_at now) k d s = (Inr w, s'') \<and> w \<noteq> [] \<longrightarrow>
      (\<exists>key info. map_of (cf_clearances (manager s)) key = Some info \<and> token info = Some w \<and> live now info))
   \<and> (list_all (\<lambda>kv. live now (snd kv) \<longrightarrow> truthy (token (snd kv))) (cf_clearances (manager s))
        \<and> length (cf_clearances (manager s)) \<le> d
        \<and> map_of (cf_clearances (manager s)) keyc = Some infoc \<and> live now infoc \<longrightarrow>
      (\<exists>v s' key info. cf_clearance rnd (clock_at now) k d s = (Inr v, s') \<and> v \<noteq> []
           \<and> map_of (cf_clearances (manager s)) key = Some info \<and> token info = Some v \<and> live now info))
   \<and> (list_all (\<lambda>kv. \<not> live now (snd kv)) (cf_clearances (manager s))
        \<and> length (cf_clearances (manager s)) \<le> d \<longrightarrow>
      cf_clearance rnd (clock_at now) k d s = (Inr [], s\<lparr>manager := (manager s)\<lparr>cf_clearances := []\<rparr>\<rparr>))
   \<and> (cf_clearance rnd (clock_at now) k d s = (Inr [], s'') \<and> map_of (cf_clearances (manager s)) keyc = Some infoc
        \<longrightarrow> \<not> live now infoc)"
proof (intro conjI impI notI)
  assume "puid rnd (clock_at now) k d s = (Inr v, s') \<and> v \<noteq> []"
  then have "\<exists>j key info. map_of (puids (manager s)) key = Some info \<and> token info = Some v
               \<and> live (clock_at now j) info"
    by (auto intro: puid_sound)
  then show "\<exists>key info. map_of (puids (manager s)) key = Some info \<and> token info = Some v \<and> live now info"
    by (simp add: clock_at_def)
next
  assume "list_all (\<lambda>kv. live now (snd kv) \<longrightarrow> truthy (token (snd kv))) (puids (manager s)) \<and> length (puids (manager s)) \<le> d
        \<and> map_of (puids (manager s)) keyp = Some infop \<and> live now infop"
  then show "\<exists>v s' key info. puid rnd (clock_at now) k d s = (Inr v, s') \<and> v \<noteq> []
           \<and> map_of (puids (manager s)) key = Some info \<and> token info = Some v \<and> live now info"
    using puid_valid_choice[where s = s and d = d and vkey = keyp and vinfo = infop and now = now
            and rnd = rnd and k = k]
    by blast
next
  assume a: "list_all (\<lambda>kv. \<not> live now (snd kv)) (puids (manager s)) \<and> length (puids (manager s)) \<le> d"
  then have "\<forall>kv \<in> set (puids (manager s)). \<exists>e. expires (snd kv) = Some e \<and> (\<forall>j. e < clock_at now j)"
    by (simp add: list_all_iff not_live_iff clock_at_def)
  with a show "puid rnd (clock_at now) k d s = (Inr [], s\<lparr>manager := (manager s)\<lparr>puids := []\<rparr>\<rparr>)"
    by (auto intro: puid_all_expired)
next
  assume a: "puid rnd (clock_at now) k d s = (Inr [], s') \<and> map_of (puids (manager s)) keyp = Some infop"
    and l: "live now infop"
  from l have "\<forall>j. live (clock_at now j) infop" by (simp add: clock_at_def)
  with a have "map_of (puids (manager s')) keyp = Some infop" by (blast intro: puid_keeps_live)
  moreover from a have "puids (manager s') = []" by (auto dest: puid_outcome)
  ultimately show False by simp
next
  assume "cf_clearance rnd (clock_at now) k d s = (Inr w, s'') \<and> w \<noteq> []"
  then have "\<exists>j key info. map_of (cf_clearances (manager s)) key = Some info \<and> token info = Some w
               \<and> live (clock_at now j) info"
    by (auto intro: cf_clearance_sound)
  then show "\<exists>key info. map_of (cf_clearances (manager s)) key = Some info \<and> token info = Some w \<and> live now info"
    by (simp add: clock_at_def)
next
  assume "list_all (\<lambda>kv. live now (snd kv) \<longrightarrow> truthy (token (snd kv))) (cf_clearances (manager s))
        \<and> length (cf_clearances (manager s)) \<le> d
        \<and> map_of (cf_clearances (manager s)) keyc = Some infoc \<and> live now infoc"
  then show "\<exists>v s' key info. cf_clearance rnd (clock_at now) k d s = (Inr v, s') \<and> v \<noteq> []
           \<and> map_of (cf_clearances (manager s)) key = Some info \<and> token info = Some v \<and> live now info"
    using cf_clearance_valid_choice[where s = s and d = d and vkey = keyc and vinfo = infoc and now = now
            and rnd = rnd and k = k]
    by blast
next
  assume a: "list_all (\<lambda>kv. \<not> live now (snd kv)) (cf_clearances (manager s))
        \<and> length (cf_clearances (manager s)) \<le> d"
  then have "\<forall>kv \<in> set (cf_clearances (manager s)). \<exists>e. expires (snd kv) = Some e \<and> (\<forall>j. e < clock_at now j)"
    by (simp add: list_all_iff not_live_iff clock_at_def)
  with a show "cf_clearance rnd (clock_at now) k d s
                 = (Inr [], s\<lparr>manager := (manager s)\<lparr>cf_clearances := []\<rparr>\<rparr>)"
    by (auto intro: cf_clearance_all_expired)
next
  assume a: "cf_clearance rnd (clock_at now) k d s = (Inr [], s'')
               \<and> map_of (cf_clearances (manager s)) keyc = Some infoc"
    and l: "live now infoc"
  from l have "\<forall>j. live (clock_at now j) infoc" by (simp add: clock_at_def)
  with a have "map_of (cf_clearances (manager s'')) keyc = Some infoc"
    by (blast intro: cf_clearance_keeps_live)
  moreover from a have "cf_clearances (manager s'') = []" by (auto dest: cf_clearance_outcome)
  ultimately show False by simp
qed

lemma thousand: "(1000::nat) = Suc 999"
  by simp

theorem random_valid_token_witness:
  "puid first_key (clock_at 100) 0 1000 store_a = (Inr ''user:5-x'', store_a)
   \<and> (\<exists>key info. map_of (puids (manager store_a)) key = Some info \<and> token info = Some ''user:5-x''
         \<and> live 100 info)
   \<and> (\<exists>v s' key info. puid first_key (clock_at 100) 0 1000 store_a = (Inr v, s') \<and> v \<noteq> []
         \<and> map_of (puids (manager store_a)) key = Some info \<and> token info = Some v \<and> live 100 info)
   \<and> cf_clearance first_key (clock_at 100) 0 1000 store_a
        = (Inr [], store_a\<lparr>manager := (manager store_a)\<lparr>cf_clearances := []\<rparr>\<rparr>)
   \<and> cf_clearance first_key (clock_at 100) 0 1000 store_b = (Inr ''abc-100-a-b-c-d'', store_b)
   \<and> (\<exists>key info. map_of (cf_clearances (manager store_b)) key = Some info
         \<and> token info = Some ''abc-100-a-b-c-d'' \<and> live 100 info)
   \<and> (\<exists>v s' key info. cf_clearance first_key (clock_at 100) 0 1000 store_b = (Inr v, s') \<and> v \<noteq> []
         \<and> map_of (cf_clearances (manager store_b)) key = Some info \<and> token info = Some v \<and> live 100 info)
   \<and> puid first_key (clock_at 100) 0 1000 store_b
        = (Inr [], store_b\<lparr>manager := (manager store_b)\<lparr>puids := []\<rparr>\<rparr>)
   \<and> map_of (puids (manager store_b)) ''user'' = Some \<lparr>token = Some ''user:5-x'', expires = Some 99\<rparr>
   \<and> \<not> live 100 \<lparr>token = Some ''user:5-x'', expires = Some 99\<rparr>
   \<and> map_of (cf_clearances (manager store_a)) ''abc''
        = Some \<lparr>token = Some ''abc-99-a-b-c-d'', expires = Some 99\<rparr>
   \<and> \<not> live 100 \<lparr>token = Some ''abc-99-a-b-c-d'', expires = Some 99\<rparr>"
proof -
  have pa: "puid first_key (clock_at 100) 0 1000 store_a = (Inr ''user:5-x'', store_a)"
    unfolding thousand by (rule puid_store_a)
  have cb: "cf_clearance first_key (clock_at 100) 0 1000 store_b = (Inr ''abc-100-a-b-c-d'', store_b)"
    unfolding thousand by (rule cf_clearance_store_b)
  have ta: "list_all (\<lambda>kv. live 100 (snd kv) \<longrightarrow> truthy (token (snd kv))) (puids (manager store_a))"
    and la: "length (puids (manager store_a)) \<le> 1000"
    and ma: "map_of (puids (manager store_a)) ''user'' = Some \<lparr>token = Some ''user:5-x'', expires = Some 200\<rparr>"
    and va: "live 100 \<lparr>token = Some ''user:5-x'', expires = Some 200\<rparr>"
    and ea: "list_all (\<lambda>kv. \<not> live 100 (snd kv)) (cf_clearances (manager store_a))"
    and ca: "length (cf_clearances (manager store_a)) \<le> 1000"
    by (simp_all add: store_a_def truthy_def live_def)
  have tb: "list_all (\<lambda>kv. live 100 (snd kv) \<longrightarrow> truthy (token (snd kv))) (cf_clearances (manager store_b))"
    and lb: "length (cf_clearances (manager store_b)) \<le> 1000"
    and mb: "map_of (cf_clearances (manager store_b)) ''abc''
               = Some \<lparr>token = Some ''abc-100-a-b-c-d'', expires = Some 100\<rparr>"
    and vb: "live 100 \<lparr>token = Some ''abc-100-a-b-c-d'', expires = Some 100\<rparr>"
    and eb: "list_all (\<lambda>kv. \<not> live 100 (snd kv)) (puids (manager store_b))"
    and pb: "length (puids (manager store_b)) \<le> 1000"
    by (simp_all add: store_b_def truthy_def live_def)
  note A = random_valid_token[where rnd = first_key and now = 100 and k = 0 and d = 1000 and s = store_a
             and v = "''user:5-x''" and s' = store_a and keyp = "''user''"
             and infop = "\<lparr>token = Some ''user:5-x'', expires = Some 200\<rparr>"]
  note B = random_valid_token[where rnd = first_key and now = 100 and k = 0 and d = 1000 and s = store_b
             and w = "''abc-100-a-b-c-d''" and s'' = store_b and keyc = "''abc''"
             and infoc = "\<lparr>token = Some ''abc-100-a-b-c-d'', expires = Some 100\<rparr>"]
  from A pa ta la ma va ea ca
  have a1: "\<exists>key info. map_of (puids (manager store_a)) key = Some info \<and> token info = Some ''user:5-x''
         \<and> live 100 info"
    and a2: "\<exists>v s' key info. puid first_key (clock_at 100) 0 1000 store_a = (Inr v, s') \<and> v \<noteq> []
         \<and> map_of (puids (manager store_a)) key = Some info \<and> token info = Some v \<and> live 100 info"
    and a3: "cf_clearance first_key (clock_at 100) 0 1000 store_a
        = (Inr [], store_a\<lparr>manager := (manager store_a)\<lparr>cf_clearances := []\<rparr>\<rparr>)"
    by simp_all
  from B cb tb lb mb vb eb pb
  have b1: "\<exists>key info. map_of (cf_clearances (manager store_b)) key = Some info
         \<and> token info = Some ''abc-100-a-b-c-d'' \<and> live 100 info"
    and b2: "\<exists>v s' key info. cf_clearance first_key (clock_at 100) 0 1000 store_b = (Inr v, s') \<and> v \<noteq> []
         \<and> map_of (cf_clearances (manager store_b)) key = Some info \<and> token info = Some v \<and> live 100 info"
    and b3: "puid first_key (clock_at 100) 0 1000 store_b
        = (Inr [], store_b\<lparr>manager := (manager store_b)\<lparr>puids := []\<rparr>\<rparr>)"
    by simp_all
  have mp: "map_of (puids (manager store_b)) ''user'' = Some \<lparr>token = Some ''user:5-x'', expires = Some 99\<rparr>"
    by (simp add: store_b_def)
  have mc: "map_of (cf_clearances (manager store_a)) ''abc''
        = Some \<lparr>token = Some ''abc-99-a-b-c-d'', expires = Some 99\<rparr>"
    by (simp add: store_a_def)
  from random_valid_token[where rnd = first_key and now = 100 and k = 0 and d = 1000 and s = store_b
         and s' = "store_b\<lparr>manager := (manager store_b)\<lparr>puids := []\<rparr>\<rparr>" and keyp = "''user''"
         and infop = "\<lparr>token = Some ''user:5-x'', expires = Some 99\<rparr>"] b3 mp
  have e1: "\<not> live 100 \<lparr>token = Some ''user:5-x'', expires = Some 99\<rparr>" by blast
  from random_valid_token[where rnd = first_key and now = 100 and k = 0 and d = 1000 and s = store_a
         and s'' = "store_a\<lparr>manager := (manager store_a)\<lparr>cf_clearances := []\<rparr>\<rparr>" and keyc = "''abc''"
         and infoc = "\<lparr>token = Some ''abc-99-a-b-c-d'', expires = Some 99\<rparr>"] a3 mc
  have e2: "\<not> live 100 \<lparr>token = Some ''abc-99-a-b-c-d'', expires = Some 99\<rparr>" by blast
  from pa cb a1 a2 a3 b1 b2 b3 mp mc e1 e2 show ?thesis by blast
qed

text \<open>The claim as written fails in three ways.  On the boundary: the stored clearance
  token expires at 100, the clock reads 100, and the token is returned.  With a valid
  entry whose value is the empty string: the entry never expires, and the property
  raises \<open>RecursionError\<close> where it should return a value of a valid entry.  With more
  expired entries than the recursion limit leaves room for (1001 against 1000): no
  entry is valid, and the property raises \<open>RecursionError\<close> where it should return the
  empty string.\<close>

theorem expiry_boundary_counterexample:
  "map_of (cf_clearances (manager store_b)) ''abc''
      = Some \<lparr>token = Some ''abc-100-a-b-c-d'', expires = Some 100\<rparr>
   \<and> (100::real) \<le> 100
   \<and> cf_clearance first_key (clock_at 100) 0 1000 store_b = (Inr ''abc-100-a-b-c-d'', store_b)
   \<and> puids (manager store_e) = [(''user'', \<lparr>token = Some [], expires = None\<rparr>)]
   \<and> puid first_key (clock_at 100) 0 1000 store_e = (Inl RecursionError, store_e)
   \<and> list_all (\<lambda>kv. \<not> live 100 (snd kv)) (puids (manager (many_expired 1001)))
   \<and> fst (puid first_key (clock_at 100) 0 1000 (many_expired 1001)) = Inl RecursionError"
proof (intro conjI)
  show "map_of (cf_clearances (manager store_b)) ''abc''
      = Some \<lparr>token = Some ''abc-100-a-b-c-d'', expires = Some 100\<rparr>"
    by (simp add: store_b_def)
  show "(100::real) \<le> 100" by simp
  show "cf_clearance first_key (clock_at 100) 0 1000 store_b = (Inr ''abc-100-a-b-c-d'', store_b)"
    unfolding thousand by (rule cf_clearance_store_b)
  show "puids (manager store_e) = [(''user'', \<lparr>token = Some [], expires = None\<rparr>)]"
    by (simp add: store_e_def)
  show "puid first_key (clock_at 100) 0 1000 store_e = (Inl RecursionError, store_e)"
    by (rule puid_never_returned) (simp_all add: store_e_def live_def truthy_def)
  show "list_all (\<lambda>kv. \<not> live 100 (snd kv)) (puids (manager (many_expired 1001)))"
    using many_expired_facts(5)[of 1001] by (simp add: list_all_iff not_live_iff clock_at_def)
  show "fst (puid first_key (clock_at 100) 0 1000 (many_expired 1001)) = Inl RecursionError"
    by (rule puid_overflow) (simp_all add: many_expired_facts)
qed

lemma get_puid_shrinks:
  assumes t: "list_all (\<lambda>kv. truthy (token (snd kv))) (puids (manager s))"
    and n: "n < length (puids (manager s))"
  shows "truthy (fst (get_puid now (fst (puids (manager s) ! n)) s))
         \<or> length (puids (manager (snd (get_puid now (fst (puids (manager s) ! n)) s))))
             < length (puids (manager s))"
proof -
  let ?m = "puids (manager s)" and ?key = "fst (puids (manager s) ! n)"
  from n have k: "?key \<in> fst ` set ?m" by (metis image_eqI nth_mem)
  then obtain info where m: "map_of ?m ?key = Some info"
    by (metis domD dom_map_of_conv_image_fst)
  then have "(?key, info) \<in> set ?m" by (rule map_of_SomeD)
  with t have tr: "truthy (token info)" by (force simp: list_all_iff)
  show ?thesis
  proof (cases "live now info")
    case True
    with m tr show ?thesis by (simp add: get_puid_def live_def split: option.splits)
  next
    case False
    with m have "snd (get_puid now ?key s) = s\<lparr>manager := (manager s)\<lparr>puids := del_key ?key ?m\<rparr>\<rparr>"
      by (auto simp: get_puid_def live_def split: option.splits)
    with length_del_key[OF k] show ?thesis by simp
  qed
qed

lemma get_cf_clearance_shrinks:
  assumes t: "list_all (\<lambda>kv. truthy (token (snd kv))) (cf_clearances (manager s))"
    and n: "n < length (cf_clearances (manager s))"
  shows "truthy (fst (get_cf_clearance now (fst (cf_clearances (manager s) ! n)) s))
         \<or> length (cf_clearances (manager (snd (get_cf_clearance now (fst (cf_clearances (manager s) ! n)) s))))
             < length (cf_clearances (manager s))"
proof -
  let ?m = "cf_clearances (manager s)" and ?key = "fst (cf_clearances (manager s) ! n)"
  from n have k: "?key \<in> fst ` set ?m" by (metis image_eqI nth_mem)
  then obtain info where m: "map_of ?m ?key = Some info"
    by (metis domD dom_map_of_conv_image_fst)
  then have "(?key, info) \<in> set ?m" by (rule map_of_SomeD)
  with t have tr: "truthy (token info)" by (force simp: list_all_iff)
  show ?thesis
  proof (cases "live now info")
    case True
    with m tr show ?thesis by (simp add: get_cf_clearance_def live_def split: option.splits)
  next
    case False
    with m have "snd (get_cf_clearance now ?key s)
                   = s\<lparr>manager := (manager s)\<lparr>cf_clearances := del_key ?key ?m\<rparr>\<rparr>"
      by (auto simp: get_cf_clearance_def live_def split: option.splits)
    with length_del_key[OF k] show ?thesis by simp
  qed
qed

text \<open>
  Claim C10, as the code has it.  \<open>d\<close> is the recursion depth left to the property.
  When every stored entry carries a non-empty token value and the map has no more than
  \<open>d\<close> entries, the \<open>puid\<close> and \<open>cf_clearance\<close> properties return a value, whatever
  \<open>random.choice\<close> draws and whatever the clock reads.  The empty map returns at once,
  at any depth.  In such a store the lookup of a drawn key either gives a non-empty
  token, which is returned, or has deleted the entry, so that the recursive call is made
  on a strictly shorter map.
\<close>

theorem selection_terminates:
  "(list_all (\<lambda>kv. truthy (token (snd kv))) (puids (manager s)) \<and> length (puids (manager s)) \<le> d \<longrightarrow>
      (\<exists>v s'. puid rnd clock k d s = (Inr v, s')))
   \<and> (list_all (\<lambda>kv. truthy (token (snd kv))) (cf_clearances (manager s))
        \<and> length (cf_clearances (manager s)) \<le> d \<longrightarrow>
      (\<exists>v s'. cf_clearance rnd clock k d s = (Inr v, s')))
   \<and> (puids (manager s) = [] \<longrightarrow> puid rnd clock k d s = (Inr [], s))
   \<and> (cf_clearances (manager s) = [] \<longrightarrow> cf_clearance rnd clock k d s = (Inr [], s))
   \<and> (list_all (\<lambda>kv. truthy (token (snd kv))) (puids (manager s)) \<and> n < length (puids (manager s)) \<longrightarrow>
        truthy (fst (get_puid now (fst (puids (manager s) ! n)) s))
        \<or> length (puids (manager (snd (get_puid now (fst (puids (manager s) ! n)) s))))
            < length (puids (manager s)))
   \<and> (list_all (\<lambda>kv. truthy (token (snd kv))) (cf_clearances (manager s))
        \<and> n < length (cf_clearances (manager s)) \<longrightarrow>
        truthy (fst (get_cf_clearance now (fst (cf_clearances (manager s) ! n)) s))
        \<or> length (cf_clearances (manager (snd (get_cf_clearance now (fst (cf_clearances (manager s) ! n)) s))))
            < length (cf_clearances (manager s)))"
proof (intro conjI impI)
  assume "list_all (\<lambda>kv. truthy (token (snd kv))) (puids (manager s)) \<and> length (puids (manager s)) \<le> d"
  then show "\<exists>v s'. puid rnd clock k d s = (Inr v, s')"
    using puid_returns[where s = s and d = d and rnd = rnd and clock = clock and k = k]
    by (simp add: list_all_iff)
next
  assume "list_all (\<lambda>kv. truthy (token (snd kv))) (cf_clearances (manager s))
        \<and> length (cf_clearances (manager s)) \<le> d"
  then show "\<exists>v s'. cf_clearance rnd clock k d s = (Inr v, s')"
    using cf_clearance_returns[where s = s and d = d and rnd = rnd and clock = clock and k = k]
    by (simp add: list_all_iff)
next
  assume "puids (manager s) = []"
  then show "puid rnd clock k d s = (Inr [], s)" by (cases d) (simp_all add: puid.simps)
next
  assume "cf_clearances (manager s) = []"
  then show "cf_clearance rnd clock k d s = (Inr [], s)" by (cases d) (simp_all add: cf_clearance.simps)
next
  assume "list_all (\<lambda>kv. truthy (token (snd kv))) (puids (manager s)) \<and> n < length (puids (manager s))"
  then show "truthy (fst (get_puid now (fst (puids (manager s) ! n)) s))
        \<or> length (puids (manager (snd (get_puid now (fst (puids (manager s) ! n)) s))))
            < length (puids (manager s))"
    using get_puid_shrinks[of s n now] by blast
next
  assume "list_all (\<lambda>kv. truthy (token (snd kv))) (cf_clearances (manager s))
        \<and> n < length (cf_clearances (manager s))"
  then show "truthy (fst (get_cf_clearance now (fst (cf_clearances (manager s) ! n)) s))
        \<or> length (cf_clearances (manager (snd (get_cf_clearance now (fst (cf_clearances (manager s) ! n)) s))))
            < length (cf_clearances (manager s))"
    using get_cf_clearance_shrinks[of s n now] by blast
qed

theorem selection_terminates_witness:
  "(\<exists>v s'. puid first_key (clock_at 100) 0 1000 store_a = (Inr v, s'))
   \<and> (\<exists>v s'. cf_clearance first_key (clock_at 100) 0 1000 store_a = (Inr v, s'))
   \<and> puid first_key (clock_at 100) 0 1000 store_c = (Inr [], store_c)
   \<and> cf_clearance first_key (clock_at 100) 0 1000 store_e = (Inr [], store_e)
   \<and> truthy (fst (get_puid 100 (fst (puids (manager store_a) ! 0)) store_a))
   \<and> length (cf_clearances (manager (snd (get_cf_clearance 100 (fst (cf_clearances (manager store_a) ! 0)) store_a))))
        < length (cf_clearances (manager store_a))"
proof -
  have p: "list_all (\<lambda>kv. truthy (token (snd kv))) (puids (manager store_a))"
    and pl: "length (puids (manager store_a)) \<le> 1000" and pn: "0 < length (puids (manager store_a))"
    and c: "list_all (\<lambda>kv. truthy (token (snd kv))) (cf_clearances (manager store_a))"
    and cl: "length (cf_clearances (manager store_a)) \<le> 1000"
    and cn: "0 < length (cf_clearances (manager store_a))"
    by (simp_all add: store_a_def truthy_def)
  have ec: "puids (manager store_c) = []" by (simp add: store_c_def)
  have ee: "cf_clearances (manager store_e) = []" by (simp add: store_e_def)
  have nt: "\<not> truthy (fst (get_cf_clearance 100 (fst (cf_clearances (manager store_a) ! 0)) store_a))"
    by (simp add: store_a_def get_cf_clearance_def truthy_def)
  have gt: "\<not> length (puids (manager (snd (get_puid 100 (fst (puids (manager store_a) ! 0)) store_a))))
              < length (puids (manager store_a))"
    by (simp add: store_a_def get_puid_def)
  note A = selection_terminates[where s = store_a and rnd = first_key and clock = "clock_at 100"
             and k = 0 and d = 1000 and n = 0 and now = 100]
  note C = selection_terminates[where s = store_c and rnd = first_key and clock = "clock_at 100"
             and k = 0 and d = 1000]
  note E = selection_terminates[where s = store_e and rnd = first_key and clock = "clock_at 100"
             and k = 0 and d = 1000]
  from A p pl c cl have a1: "\<exists>v s'. puid first_key (clock_at 100) 0 1000 store_a = (Inr v, s')"
    and a2: "\<exists>v s'. cf_clearance first_key (clock_at 100) 0 1000 store_a = (Inr v, s')"
    by simp_all
  from A p pn gt have a3: "truthy (fst (get_puid 100 (fst (puids (manager store_a) ! 0)) store_a))"
    by blast
  from A c cn nt
  have a4: "length (cf_clearances (manager (snd (get_cf_clearance 100 (fst (cf_clearances (manager store_a) ! 0)) store_a))))
        < length (cf_clearances (manager store_a))"
    by blast
  from C ec have c1: "puid first_key (clock_at 100) 0 1000 store_c = (Inr [], store_c)" by simp
  from E ee have e1: "cf_clearance first_key (clock_at 100) 0 1000 store_e = (Inr [], store_e)" by simp
  from a1 a2 a3 a4 c1 e1 show ?thesis by blast
qed

text \<open>The claim as written fails in two ways.  An entry that carries its token value
  field with the empty string as the value is never expired and never returned: the
  property calls itself on the unchanged store until the recursion limit is reached
  and raises \<open>RecursionError\<close>.  And a store of 1001 expired entries, each with a
  non-empty token, meets a limit that leaves room for 1000 nested calls: the property
  raises \<open>RecursionError\<close> before the map is empty.\<close>

theorem empty_value_counterexample:
  "cf_clearances (manager store_c) = [(''abc'', \<lparr>token = Some [], expires = None\<rparr>)]
   \<and> cf_clearance first_key (clock_at 0) 0 1000 store_c = (Inl RecursionError, store_c)
   \<and> list_all (\<lambda>kv. truthy (token (snd kv))) (cf_clearances (manager (many_expired 1001)))
   \<and> fst (cf_clearance first_key (clock_at 100) 0 1000 (many_expired 1001)) = Inl RecursionError"
proof (intro conjI)
  show "cf_clearances (manager store_c) = [(''abc'', \<lparr>token = Some [], expires = None\<rparr>)]"
    by (simp add: store_c_def)
  show "cf_clearance first_key (clock_at 0) 0 1000 store_c = (Inl RecursionError, store_c)"
    by (rule cf_clearance_never_returned) (simp_all add: store_c_def live_def truthy_def)
  show "list_all (\<lambda>kv. truthy (token (snd kv))) (cf_clearances (manager (many_expired 1001)))"
    by (rule many_expired_facts)
  show "fst (cf_clearance first_key (clock_at 100) 0 1000 (many_expired 1001)) = Inl RecursionError"
    by (rule cf_clearance_overflow) (simp_all add: many_expired_facts)
qed

section \<open>Streamed responses\<close>

text \<open>
  Claim C9.  The response that \<open>_call_api\<close> yields for a caught Playwright error is
  \<open>StreamResponse(status=403)\<close>: it has neither a response handle nor a controller
  handle, and \<open>read\<close>, \<open>text\<close>, \<open>json\<close>, \<open>iter_chunked\<close> and \<open>stop\<close> each raise
  \<open>StreamResponseException\<close> on it, whatever the browser would have answered.
\<close>

theorem normalized_response_unusable:
  "fst (call_api_enter (a\<lparr>set_cookie_r := JSError\<rparr>) url tok tmo cs) = Inr (StreamResponse_init 403, False)
   \<and> status (StreamResponse_init 403) = 403
   \<and> response (StreamResponse_init 403) = None
   \<and> controller (StreamResponse_init 403) = None
   \<and> read arrayBuffer (StreamResponse_init 403)
        = Inl (StreamResponseException ''Cannot read, response is None'')
   \<and> text_of decode arrayBuffer (StreamResponse_init 403)
        = Inl (StreamResponseException ''Cannot read, response is None'')
   \<and> json loads decode arrayBuffer (StreamResponse_init 403)
        = Inl (StreamResponseException ''Cannot read, response is None'')
   \<and> iter_chunked (StreamResponse_init 403) = Inl (StreamResponseException ''response is None'')
   \<and> stop abort dispose (StreamResponse_init 403) = Inl (StreamResponseException ''controller is None'')"
  by (simp add: call_api_enter_def js_result_def StreamResponse_init_def read_def text_of_def
        json_def iter_chunked_def stop_def Let_def)

section \<open>The pool: which calls carry the identity token\<close>

lemma endswith_alts: "endswith p [''/'', ''session''] \<longleftrightarrow> suffix ''/'' p \<or> suffix ''session'' p"
  by (simp add: endswith_def)

lemma startswith_alts:
  "startswith p [''/_next/data'', ''/c/'', ''/api/auth/callback/auth0'']
     \<longleftrightarrow> prefix ''/_next/data'' p \<or> prefix ''/c/'' p \<or> prefix ''/api/auth/callback/auth0'' p"
  by (simp add: startswith_def)

text \<open>
  Claim C5, as the code has it.  The token handed on to the context is the supplied one
  exactly when it is non-empty, \<open>headers.get("authorization")\<close> is missing or empty, and
  the path ends with \<open>/\<close> or \<open>session\<close> or starts with \<open>/_next/data\<close>, \<open>/c/\<close> or
  \<open>/api/auth/callback/auth0\<close>; otherwise it is \<open>None\<close>.  So \<open>/api/models\<close> with an
  authorization header never carries the token, and \<open>/c/123\<close> without one does.
\<close>

theorem identity_token_rule:
  "(effective_token path hdrs tok \<noteq> None) =
      (truthy tok \<and> \<not> truthy (map_of hdrs ''authorization'')
        \<and> (suffix ''/'' path \<or> suffix ''session'' path \<or> prefix ''/_next/data'' path
            \<or> prefix ''/c/'' path \<or> prefix ''/api/auth/callback/auth0'' path))
   \<and> effective_token path hdrs tok \<in> {None, tok}
   \<and> effective_token ''/api/models'' [(''authorization'', ''Bearer x'')] (Some ''tok123'') = None
   \<and> effective_token ''/c/123'' [] (Some ''tok123'') = Some ''tok123''"
proof (intro conjI)
  show "(effective_token path hdrs tok \<noteq> None) =
      (truthy tok \<and> \<not> truthy (map_of hdrs ''authorization'')
        \<and> (suffix ''/'' path \<or> suffix ''session'' path \<or> prefix ''/_next/data'' path
            \<or> prefix ''/c/'' path \<or> prefix ''/api/auth/callback/auth0'' path))"
    unfolding effective_token_def endswith_alts startswith_alts
    by (cases tok) (auto simp: truthy_def)
  show "effective_token path hdrs tok \<in> {None, tok}"
    by (simp add: effective_token_def)
  show "effective_token ''/api/models'' [(''authorization'', ''Bearer x'')] (Some ''tok123'') = None"
    by (simp add: effective_token_def truthy_def)
  show "effective_token ''/c/123'' [] (Some ''tok123'') = Some ''tok123''"
    by (simp add: effective_token_def truthy_def startswith_alts)
qed

theorem identity_token_rule_witness:
  "truthy (Some ''tok123'') \<and> \<not> truthy (map_of [] ''authorization'') \<and> prefix ''/c/'' ''/c/123''
   \<and> effective_token ''/c/123'' [] (Some ''tok123'') = Some ''tok123''
   \<and> truthy (map_of [(''authorization'', ''Bearer x'')] ''authorization'')
   \<and> effective_token ''/api/models'' [(''authorization'', ''Bearer x'')] (Some ''tok123'') = None"
  using identity_token_rule[of "''/c/123''" "[]" "Some ''tok123''"]
        identity_token_rule[of "''/api/models''" "[(''authorization'', ''Bearer x'')]" "Some ''tok123''"]
  by (simp add: truthy_def)

text \<open>The claim as written fails when the headers hold an authorization entry whose
  value is empty: the entry is there, and the token is still handed on.\<close>

theorem empty_authorization_counterexample:
  "map_of [(''authorization'', [])] ''authorization'' = Some []
   \<and> effective_token ''/c/123'' [(''authorization'', [])] (Some ''tok123'') = Some ''tok123''"
  by (simp add: effective_token_def truthy_def startswith_alts)

section \<open>Execution contexts: entering a request\<close>

lemma call_api_enter_no_playwright:
  "fst (call_api_enter a url tok tmo cs) \<noteq> Inl PlaywrightError"
  by (auto simp: call_api_enter_def Let_def split: sum.splits prod.splits)

text \<open>
  Claim C1, as the code has it.  Entering \<open>_call_api\<close> never raises Playwright's
  \<open>Error\<close>: one raised while the identity cookie is installed, the abort controller
  is created or the fetch is issued is caught, and the caller is handed
  \<open>StreamResponse(status=403)\<close> instead.
\<close>

theorem environment_fault_normalized:
  "fst (call_api_enter a url tok tmo cs) \<noteq> Inl PlaywrightError
   \<and> fst (call_api_enter (a\<lparr>set_cookie_r := JSError\<rparr>) url tok tmo cs)
        = Inr (StreamResponse_init 403, False)
   \<and> fst (call_api_enter (a\<lparr>set_cookie_r := Returned (), new_controller := JSError\<rparr>) url tok tmo cs)
        = Inr (StreamResponse_init 403, False)
   \<and> fst (call_api_enter (a\<lparr>set_cookie_r := Returned (), new_controller := Returned ctrl,
                               tracked_fetch := JSError\<rparr>) url tok tmo cs)
        = Inr (StreamResponse_init 403, False)"
proof (intro conjI)
  show "fst (call_api_enter a url tok tmo cs) \<noteq> Inl PlaywrightError"
    by (rule call_api_enter_no_playwright)
  show "fst (call_api_enter (a\<lparr>set_cookie_r := JSError\<rparr>) url tok tmo cs)
        = Inr (StreamResponse_init 403, False)"
    by (simp add: call_api_enter_def js_result_def Let_def)
  show "fst (call_api_enter (a\<lparr>set_cookie_r := Returned (), new_controller := JSError\<rparr>) url tok tmo cs)
        = Inr (StreamResponse_init 403, False)"
    by (simp add: call_api_enter_def fetch_enter_def js_result_def Let_def)
  show "fst (call_api_enter (a\<lparr>set_cookie_r := Returned (), new_controller := Returned ctrl,
                               tracked_fetch := JSError\<rparr>) url tok tmo cs)
        = Inr (StreamResponse_init 403, False)"
    by (simp add: call_api_enter_def fetch_enter_def js_result_def Let_def)
qed

text \<open>The claim as written fails for a fault while waiting for the headers:
  \<open>wait_for_headers\<close> turns it into \<open>StreamResponseException\<close>, which the
  \<open>except PlaywrightError\<close> branch does not catch, so the caller gets the exception
  and no response.\<close>

theorem header_fault_counterexample:
  "fst (call_api_enter (attempt_ok\<lparr>status_eval := JSError\<rparr>) ''/backend-api/models'' None 10
          (session_ready, store_a))
     = Inl (StreamResponseException ''Fetch Error, Please try again later'')"
  by (simp add: call_api_enter_def fetch_enter_def wait_for_headers_def js_result_def Let_def
        attempt_ok_def truthy_def)

text \<open>
  Claim C7, as the code has it.  When the upstream status is 429 and the URL contains
  \<open>/api/auth/session\<close>, the response is yielded to the caller with its status rewritten
  to 403, and \<open>init_page(restart=True)\<close> is handed to \<open>ensure_future\<close> when the context
  is available at that moment (\<open>if await self.get_status()\<close>); a context that is not
  available schedules nothing.
\<close>

theorem session_429_rewritten:
  assumes "set_cookie_r a = Returned ()" and "new_controller a = Returned ctrl"
    and "tracked_fetch a = Returned h" and "status_eval a = Returned 429"
    and "headers_eval a = Returned hs" and "py_in ''/api/auth/session'' url"
  shows "call_api_enter a url tok tmo (c, st) =
           (Inr (\<lparr>status = 403, headers = hs, controller = Some ctrl, response = Some h, timeout = tmo\<rparr>, True),
            ((if truthy tok then c\<lparr>running := True\<rparr> else c)
               \<lparr>scheduled := (if available c then scheduled c @ [Init_page_restart] else scheduled c)\<rparr>,
             st))"
  using assms
  by (simp add: call_api_enter_def fetch_enter_def call_api_body_def wait_for_headers_def
        js_result_def Let_def)

lemma py_in_session_url: "py_in ''/api/auth/session'' ''https://chat.openai.com/api/auth/session''"
  by simp

theorem session_429_rewritten_witness:
  "call_api_enter (attempt_ok\<lparr>status_eval := Returned 429\<rparr>) ''https://chat.openai.com/api/auth/session''
       None 10 (session_ready, store_a) =
     (Inr (\<lparr>status = 403, headers = [], controller = Some 1, response = Some 2, timeout = 10\<rparr>, True),
      (session_ready\<lparr>scheduled := [Init_page_restart]\<rparr>, store_a))"
  using session_429_rewritten[of "attempt_ok\<lparr>status_eval := Returned 429\<rparr>" 1 2 "[]"
          "''https://chat.openai.com/api/auth/session''" None 10 session_ready store_a]
        py_in_session_url
  by (simp add: attempt_ok_def session_ready_def truthy_def)

text \<open>The claim as written fails for a context that is not available when the 429
  arrives: the status is rewritten and the response yielded, and no restart is scheduled.\<close>

theorem no_restart_counterexample:
  "call_api_enter (attempt_ok\<lparr>status_eval := Returned 429\<rparr>) ''https://chat.openai.com/api/auth/session''
       None 10 (session_ready\<lparr>available := False\<rparr>, store_a) =
     (Inr (\<lparr>status = 403, headers = [], controller = Some 1, response = Some 2, timeout = 10\<rparr>, True),
      (session_ready\<lparr>available := False\<rparr>, store_a))
   \<and> scheduled (session_ready\<lparr>available := False\<rparr>) = []"
  by (simp add: call_api_enter_def fetch_enter_def call_api_body_def wait_for_headers_def
        js_result_def Let_def attempt_ok_def session_ready_def truthy_def)

section \<open>The pool: selection and the running flag\<close>

lemma get_sessions_iff:
  "i \<in> set (get_sessions ss) \<longleftrightarrow> i < length ss \<and> available (ss ! i) \<and> \<not> running (ss ! i)"
  by (auto simp: get_sessions_def)

lemma get_session_eligible:
  "get_session rnd idle k d ss = (Inr (j, k'), ss') \<Longrightarrow> j \<in> set (get_sessions ss')"
proof (induction d arbitrary: k ss)
  case 0
  then show ?case by (simp add: get_session.simps)
next
  case (Suc d)
  show ?case
  proof (cases "get_sessions ss = []")
    case True
    with Suc.prems have "get_session rnd idle (Suc k) d (idle k ss) = (Inr (j, k'), ss')"
      by (simp add: get_session.simps)
    then show ?thesis by (rule Suc.IH)
  next
    case False
    with Suc.prems have "j = get_sessions ss ! (rnd k mod length (get_sessions ss))" "ss' = ss"
      by (auto simp: get_session.simps Let_def)
    with False show ?thesis by simp
  qed
qed

lemma get_session_raises:
  "get_session rnd idle k d ss = (Inl e, ss') \<Longrightarrow> e = RecursionError"
proof (induction d arbitrary: k ss)
  case 0
  then show ?case by (simp add: get_session.simps)
next
  case (Suc d)
  then show ?case by (auto simp: get_session.simps Let_def split: if_splits)
qed





lemma get_session_ready_Suc:
  "get_session first_key no_change 0 (Suc d) [session_ready] = (Inr (0, 1), [session_ready])"
  by (simp add: get_session.simps get_sessions_def session_ready_def first_key_def)

lemma get_session_ready:
  "get_session first_key no_change 0 1000 [session_ready] = (Inr (0, 1), [session_ready])"
  unfolding thousand by (rule get_session_ready_Suc)



section \<open>The pool: retry on 403\<close>

lemma effective_token_idem:
  "effective_token p h (effective_token p h t) = effective_token p h t"
  by (simp add: effective_token_def truthy_def)

lemma call_api_token_filtered:
  "call_api U rnd idle browser depth k url hdrs (effective_token (U url) hdrs tok) first pool
     = call_api U rnd idle browser depth k url hdrs tok first pool"
  by (subst call_api.simps, subst (2) call_api.simps)
     (simp add: effective_token_idem split: prod.splits sum.splits)

lemma call_api_unfold:
  assumes sel: "get_session rnd idle k (depth first) ss0 = (Inr (i, k1), ss)"
    and r: "call_api_enter (browser first) url (effective_token (U url) hdrs tok) 10 (ss ! i, st)
              = (Inr (resp, fl), (c', st'))"
  shows "call_api U rnd idle browser depth k url hdrs tok first (ss0, st) =
           (if status resp = 403 then
              if \<not> first then (Inr (i, resp\<lparr>status := 499\<rparr>, fl), (ss[i := c'], st'))
              else (case call_api_exit (browser first) (resp, fl) (ss[i := c'] ! i) of
                      (Some e, c'') \<Rightarrow> (Inl e, (ss[i := c', i := c''], st'))
                    | (None, c'') \<Rightarrow>
                        call_api U rnd idle browser depth k1 url hdrs tok False (ss[i := c', i := c''], st'))
            else (Inr (i, resp, fl), (ss[i := c'], st')))"
proof (cases first)
  case True
  with sel r show ?thesis
    by (subst call_api.simps) (simp add: Let_def call_api_token_filtered split: prod.splits option.splits)
next
  case False
  with sel r show ?thesis
    by (subst call_api.simps) (simp add: Let_def)
qed

lemma call_api_retry_not_403:
  assumes "call_api U rnd idle browser depth k url hdrs tok False pool = (Inr (j, resp, fl), pool')"
  shows "status resp \<noteq> 403"
proof -
  obtain ss0 st where pool: "pool = (ss0, st)" by (cases pool)
  obtain g ss where g: "get_session rnd idle k (depth False) ss0 = (g, ss)"
    by (cases "get_session rnd idle k (depth False) ss0")
  show ?thesis
  proof (cases g)
    case (Inl e)
    with assms g show ?thesis by (subst (asm) call_api.simps) (simp add: pool)
  next
    case (Inr ik)
    obtain i k1 where ik: "ik = (i, k1)" by (cases ik)
    from g Inr ik have sel: "get_session rnd idle k (depth False) ss0 = (Inr (i, k1), ss)" by simp
    let ?r = "call_api_enter (browser False) url (effective_token (U url) hdrs tok) 10 (ss ! i, st)"
    show ?thesis
    proof (cases "fst ?r")
      case (Inl e)
      with assms sel show ?thesis
        by (subst (asm) call_api.simps) (simp add: pool Let_def)
    next
      case (Inr y)
      then have r: "?r = (Inr (fst y, snd y), (fst (snd ?r), snd (snd ?r)))"
        by (metis prod.collapse)
      from assms show ?thesis
        unfolding pool call_api_unfold[where browser = browser and first = False and U = U
                    and depth = depth, OF sel r]
        by (auto split: if_splits)
    qed
  qed
qed

lemma call_api_never_403:
  assumes "call_api U rnd idle browser depth k url hdrs tok first pool = (Inr (j, resp, fl), pool')"
  shows "status resp \<noteq> 403"
proof (cases first)
  case False
  with assms show ?thesis by (auto dest: call_api_retry_not_403)
next
  case True
  obtain ss0 st where pool: "pool = (ss0, st)" by (cases pool)
  from assms True
  have a: "call_api U rnd idle browser depth k url hdrs tok True (ss0, st) = (Inr (j, resp, fl), pool')"
    by (simp add: pool)
  obtain g ss where g: "get_session rnd idle k (depth True) ss0 = (g, ss)"
    by (cases "get_session rnd idle k (depth True) ss0")
  show ?thesis
  proof (cases g)
    case (Inl e)
    with a g show ?thesis by (subst (asm) call_api.simps) simp
  next
    case (Inr ik)
    obtain i k1 where ik: "ik = (i, k1)" by (cases ik)
    from g Inr ik have sel: "get_session rnd idle k (depth True) ss0 = (Inr (i, k1), ss)" by simp
    let ?r = "call_api_enter (browser True) url (effective_token (U url) hdrs tok) 10 (ss ! i, st)"
    show ?thesis
    proof (cases "fst ?r")
      case (Inl e)
      with a sel show ?thesis
        by (subst (asm) call_api.simps) (simp add: Let_def)
    next
      case (Inr y)
      then have r: "?r = (Inr (fst y, snd y), (fst (snd ?r), snd (snd ?r)))"
        by (metis prod.collapse)
      from a show ?thesis
        unfolding call_api_unfold[where browser = browser and first = True and U = U
                    and depth = depth, OF sel r]
        by (auto split: if_splits prod.splits option.splits dest: call_api_retry_not_403)
    qed
  qed
qed

text \<open>
  What \<open>call_api\<close> does with the response \<open>resp\<close> of the context selected for the
  call.  A response other than 403 is yielded unchanged.  A 403 on an attempt that is
  not the first is yielded with its status rewritten to 499.  A 403 on the first attempt
  is not yielded: the request is closed and, when closing it raises nothing, the call is
  made once more with the same arguments and \<open>first=False\<close>, and the caller receives
  what that retry yields.  No response that reaches the caller has status 403.
\<close>

lemma call_api_retry_once:
  assumes sel: "get_session rnd idle k (depth first) ss0 = (Inr (i, k1), ss)"
    and r: "call_api_enter (browser first) url (effective_token (U url) hdrs tok) 10 (ss ! i, st)
              = (Inr (resp, fl), (c', st'))"
  shows "(status resp \<noteq> 403 \<longrightarrow>
            call_api U rnd idle browser depth k url hdrs tok first (ss0, st)
              = (Inr (i, resp, fl), (ss[i := c'], st')))
       \<and> (status resp = 403 \<and> \<not> first \<longrightarrow>
            call_api U rnd idle browser depth k url hdrs tok first (ss0, st)
              = (Inr (i, resp\<lparr>status := 499\<rparr>, fl), (ss[i := c'], st')))
       \<and> (status resp = 403 \<and> first \<and> call_api_exit (browser first) (resp, fl) c' = (None, c'') \<longrightarrow>
            call_api U rnd idle browser depth k url hdrs tok first (ss0, st)
              = call_api U rnd idle browser depth k1 url hdrs tok False (ss[i := c''], st'))
       \<and> (status resp = 403 \<and> first \<and> call_api_exit (browser first) (resp, fl) c' = (Some e, c'') \<longrightarrow>
            call_api U rnd idle browser depth k url hdrs tok first (ss0, st)
              = (Inl e, (ss[i := c''], st')))"
proof -
  from get_session_eligible[OF sel] have i: "i < length ss" by (simp add: get_sessions_iff)
  note u = call_api_unfold[where browser = browser and first = first and U = U and depth = depth,
             OF sel r]
  show ?thesis
  proof (intro conjI impI)
    assume "status resp \<noteq> 403"
    then show "call_api U rnd idle browser depth k url hdrs tok first (ss0, st)
              = (Inr (i, resp, fl), (ss[i := c'], st'))"
      by (subst u) simp
  next
    assume "status resp = 403 \<and> \<not> first"
    then show "call_api U rnd idle browser depth k url hdrs tok first (ss0, st)
              = (Inr (i, resp\<lparr>status := 499\<rparr>, fl), (ss[i := c'], st'))"
      by (subst u) simp
  next
    assume "status resp = 403 \<and> first \<and> call_api_exit (browser first) (resp, fl) c' = (None, c'')"
    with i show "call_api U rnd idle browser depth k url hdrs tok first (ss0, st)
              = call_api U rnd idle browser depth k1 url hdrs tok False (ss[i := c''], st')"
      by (subst u) auto
  next
    assume "status resp = 403 \<and> first \<and> call_api_exit (browser first) (resp, fl) c' = (Some e, c'')"
    with i show "call_api U rnd idle browser depth k url hdrs tok first (ss0, st)
              = (Inl e, (ss[i := c''], st'))"
      by (subst u) auto
  qed
qed

lemma call_api_enter_200:
  "call_api_enter attempt_ok ''/c/5'' (effective_token (bare_path ''/c/5'') [] (Some ''tok123'')) 10
      (session_ready, store_a)
     = (Inr (upstream_response 200, True), (session_ready\<lparr>running := True\<rparr>, store_a))"
  by (simp add: call_api_enter_def fetch_enter_def call_api_body_def wait_for_headers_def
        js_result_def Let_def attempt_ok_def truthy_def effective_token_def startswith_alts
        bare_path_def upstream_response_def)

lemma delete_cf_clearance_store_a: "delete_cf_clearance ''abc-99-a-b-c-d'' store_a = Inr (True, store_a_saved)"
  by (simp add: delete_cf_clearance_def store_a_def store_a_saved_def save_def del_key_def)

lemma call_api_enter_403:
  "call_api_enter (attempt_ok\<lparr>status_eval := Returned 403\<rparr>) ''/c/5''
      (effective_token (bare_path ''/c/5'') [] (Some ''tok123'')) 10 (session_ready, store_a)
     = (Inr (upstream_response 403, True),
        (session_ready\<lparr>running := True, scheduled := [Get_cf_cookies_wait]\<rparr>, store_a_saved))"
  by (simp add: call_api_enter_def fetch_enter_def call_api_body_def wait_for_headers_def
        js_result_def Let_def attempt_ok_def truthy_def effective_token_def startswith_alts
        bare_path_def upstream_response_def session_ready_def delete_cf_clearance_store_a)

lemma call_api_exit_403:
  "call_api_exit (attempt_ok\<lparr>status_eval := Returned 403\<rparr>) (upstream_response 403, True)
      (session_ready\<lparr>running := True, scheduled := [Get_cf_cookies_wait]\<rparr>)
     = (None, session_ready\<lparr>scheduled := [Get_cf_cookies_wait]\<rparr>)"
  by (simp add: call_api_exit_def fetch_exit_def stop_def js_result_def attempt_ok_def
        upstream_response_def session_ready_def)

lemma get_session_after_403:
  "get_session first_key no_change (Suc 0) 1000 [session_ready\<lparr>scheduled := [Get_cf_cookies_wait]\<rparr>]
     = (Inr (0, 2), [session_ready\<lparr>scheduled := [Get_cf_cookies_wait]\<rparr>])"
  unfolding thousand
  by (subst get_session.simps) (simp add: get_sessions_def session_ready_def first_key_def)

lemma upstream_status:
  "status (upstream_response 200) \<noteq> 403" "status (upstream_response 403) = 403"
  "(upstream_response 403)\<lparr>status := 499\<rparr> = upstream_response 499"
  by (simp_all add: upstream_response_def)

text \<open>The runs of the retry on a pool of one context: a 200 reaches the caller as it
  is, a 403 followed by a 200 reaches the caller as the 200, and a 403 followed by a 403
  as a 499.\<close>

lemma first_attempt_200:
  "call_api bare_path first_key no_change browser_ok depth_1000 0 ''/c/5'' [] (Some ''tok123'') True
       ([session_ready], store_a)
     = (Inr (0, upstream_response 200, True), ([session_ready\<lparr>running := True\<rparr>], store_a))"
proof -
  have sel: "get_session first_key no_change 0 (depth_1000 True) [session_ready]
               = (Inr (0, 1), [session_ready])"
    by (simp add: depth_1000_def get_session_ready)
  have r: "call_api_enter (browser_ok True) ''/c/5''
      (effective_token (bare_path ''/c/5'') [] (Some ''tok123'')) 10 ([session_ready] ! 0, store_a)
     = (Inr (upstream_response 200, True), (session_ready\<lparr>running := True\<rparr>, store_a))"
    by (simp add: browser_ok_def call_api_enter_200)
  from call_api_retry_once[where browser = browser_ok and first = True and U = bare_path
         and depth = depth_1000 and c'' = session_ready and e = RuntimeError, OF sel r] upstream_status
  show ?thesis by simp
qed

lemma retry_then_200:
  "call_api bare_path first_key no_change browser_403_200 depth_1000 0 ''/c/5'' [] (Some ''tok123'') True
       ([session_ready], store_a)
     = (Inr (0, upstream_response 200, True),
             ([session_ready\<lparr>running := True, scheduled := [Get_cf_cookies_wait]\<rparr>], store_a_saved))"
proof -
  have sel: "get_session first_key no_change 0 (depth_1000 True) [session_ready]
               = (Inr (0, 1), [session_ready])"
    by (simp add: depth_1000_def get_session_ready)
  have r: "call_api_enter (browser_403_200 True) ''/c/5''
      (effective_token (bare_path ''/c/5'') [] (Some ''tok123'')) 10 ([session_ready] ! 0, store_a)
     = (Inr (upstream_response 403, True),
        (session_ready\<lparr>running := True, scheduled := [Get_cf_cookies_wait]\<rparr>, store_a_saved))"
    by (simp add: browser_403_200_def call_api_enter_403)
  have x: "call_api_exit (browser_403_200 True) (upstream_response 403, True)
      (session_ready\<lparr>running := True, scheduled := [Get_cf_cookies_wait]\<rparr>)
     = (None, session_ready\<lparr>scheduled := [Get_cf_cookies_wait]\<rparr>)"
    by (simp add: browser_403_200_def call_api_exit_403)
  from call_api_retry_once[where browser = browser_403_200 and first = True and U = bare_path
         and depth = depth_1000 and c'' = "session_ready\<lparr>scheduled := [Get_cf_cookies_wait]\<rparr>"
         and e = RuntimeError, OF sel r] upstream_status x
  have first: "call_api bare_path first_key no_change browser_403_200 depth_1000 0 ''/c/5'' []
                 (Some ''tok123'') True ([session_ready], store_a)
     = call_api bare_path first_key no_change browser_403_200 depth_1000 1 ''/c/5'' [] (Some ''tok123'') False
         ([session_ready\<lparr>scheduled := [Get_cf_cookies_wait]\<rparr>], store_a_saved)"
    by simp
  have sel2: "get_session first_key no_change 1 (depth_1000 False)
                [session_ready\<lparr>scheduled := [Get_cf_cookies_wait]\<rparr>]
               = (Inr (0, 2), [session_ready\<lparr>scheduled := [Get_cf_cookies_wait]\<rparr>])"
    by (simp add: depth_1000_def get_session_after_403)
  have r2: "call_api_enter (browser_403_200 False) ''/c/5''
      (effective_token (bare_path ''/c/5'') [] (Some ''tok123'')) 10
      ([session_ready\<lparr>scheduled := [Get_cf_cookies_wait]\<rparr>] ! 0, store_a_saved)
     = (Inr (upstream_response 200, True),
        (session_ready\<lparr>running := True, scheduled := [Get_cf_cookies_wait]\<rparr>, store_a_saved))"
    by (simp add: call_api_enter_def fetch_enter_def call_api_body_def wait_for_headers_def
        js_result_def Let_def attempt_ok_def truthy_def effective_token_def startswith_alts
        bare_path_def upstream_response_def session_ready_def browser_403_200_def)
  from call_api_retry_once[where browser = browser_403_200 and first = False and U = bare_path
         and depth = depth_1000 and c'' = session_ready and e = RuntimeError, OF sel2 r2] upstream_status
  have "call_api bare_path first_key no_change browser_403_200 depth_1000 1 ''/c/5'' [] (Some ''tok123'') False
         ([session_ready\<lparr>scheduled := [Get_cf_cookies_wait]\<rparr>], store_a_saved)
     = (Inr (0, upstream_response 200, True),
             ([session_ready\<lparr>running := True, scheduled := [Get_cf_cookies_wait]\<rparr>], store_a_saved))"
    by simp
  with first show ?thesis by simp
qed

lemma retry_then_403:
  "call_api bare_path first_key no_change browser_403_403 depth_1000 1 ''/c/5'' [] (Some ''tok123'') False
       ([session_ready\<lparr>scheduled := [Get_cf_cookies_wait]\<rparr>], store_a_saved)
     = (Inr (0, upstream_response 499, True),
             ([session_ready\<lparr>running := True, scheduled := [Get_cf_cookies_wait, Get_cf_cookies_wait]\<rparr>],
              store_a_saved))"
proof -
  have d: "delete_cf_clearance ''abc-99-a-b-c-d'' store_a_saved = Inr (False, store_a_saved)"
    by (simp add: delete_cf_clearance_def store_a_saved_def)
  have sel2: "get_session first_key no_change 1 (depth_1000 False)
                [session_ready\<lparr>scheduled := [Get_cf_cookies_wait]\<rparr>]
               = (Inr (0, 2), [session_ready\<lparr>scheduled := [Get_cf_cookies_wait]\<rparr>])"
    by (simp add: depth_1000_def get_session_after_403)
  have r: "call_api_enter (browser_403_403 False) ''/c/5''
      (effective_token (bare_path ''/c/5'') [] (Some ''tok123'')) 10
      ([session_ready\<lparr>scheduled := [Get_cf_cookies_wait]\<rparr>] ! 0, store_a_saved)
     = (Inr (upstream_response 403, True),
        (session_ready\<lparr>running := True, scheduled := [Get_cf_cookies_wait, Get_cf_cookies_wait]\<rparr>,
         store_a_saved))"
    by (simp add: call_api_enter_def fetch_enter_def call_api_body_def wait_for_headers_def
        js_result_def Let_def attempt_ok_def truthy_def effective_token_def startswith_alts
        bare_path_def upstream_response_def session_ready_def browser_403_403_def d)
  from call_api_retry_once[where browser = browser_403_403 and first = False and U = bare_path
         and depth = depth_1000 and c'' = session_ready and e = RuntimeError, OF sel2 r] upstream_status
  show ?thesis by simp
qed

text \<open>
  Claim C2 at a first attempt whose request cannot be closed.  The context answers 403
  on the first attempt, so \<open>call_api\<close> leaves \<open>async with session._call_api\<close> in order to
  retry.  Leaving it runs the rest of \<open>fetch\<close>, where the decrement of the page's fetch
  counter raises a Playwright error; the \<open>except\<close> branch of \<open>_call_api\<close> catches it and
  yields a second time, and the context manager raises \<open>RuntimeError\<close>.  The caller
  gets that exception: no retry is made and no response is received.
\<close>

theorem retry_lost_when_close_fails:
  "call_api_enter (browser_403_close_fails True) ''/c/5'' (Some ''tok123'') 10 (session_ready, store_a)
     = (Inr (upstream_response 403, True),
        (session_ready\<lparr>running := True, scheduled := [Get_cf_cookies_wait]\<rparr>, store_a_saved))
   \<and> call_api_exit (browser_403_close_fails True) (upstream_response 403, True)
        (session_ready\<lparr>running := True, scheduled := [Get_cf_cookies_wait]\<rparr>)
     = (Some RuntimeError, session_ready\<lparr>scheduled := [Get_cf_cookies_wait]\<rparr>)
   \<and> call_api bare_path first_key no_change browser_403_close_fails depth_1000 0 ''/c/5'' []
        (Some ''tok123'') True ([session_ready], store_a)
     = (Inl RuntimeError, ([session_ready\<lparr>scheduled := [Get_cf_cookies_wait]\<rparr>], store_a_saved))"
proof -
  have t: "effective_token (bare_path ''/c/5'') [] (Some ''tok123'') = Some ''tok123''"
    by (simp add: effective_token_def truthy_def startswith_alts bare_path_def)
  have sel: "get_session first_key no_change 0 (depth_1000 True) [session_ready]
               = (Inr (0, 1), [session_ready])"
    by (simp add: depth_1000_def get_session_ready)
  have r: "call_api_enter (browser_403_close_fails True) ''/c/5'' (Some ''tok123'') 10
             (session_ready, store_a)
     = (Inr (upstream_response 403, True),
        (session_ready\<lparr>running := True, scheduled := [Get_cf_cookies_wait]\<rparr>, store_a_saved))"
    by (simp add: call_api_enter_def fetch_enter_def call_api_body_def wait_for_headers_def
        js_result_def Let_def attempt_ok_def truthy_def upstream_response_def session_ready_def
        delete_cf_clearance_store_a browser_403_close_fails_def)
  then have r': "call_api_enter (browser_403_close_fails True) ''/c/5''
             (effective_token (bare_path ''/c/5'') [] (Some ''tok123'')) 10 ([session_ready] ! 0, store_a)
     = (Inr (upstream_response 403, True),
        (session_ready\<lparr>running := True, scheduled := [Get_cf_cookies_wait]\<rparr>, store_a_saved))"
    by (simp add: t)
  have x: "call_api_exit (browser_403_close_fails True) (upstream_response 403, True)
      (session_ready\<lparr>running := True, scheduled := [Get_cf_cookies_wait]\<rparr>)
     = (Some RuntimeError, session_ready\<lparr>scheduled := [Get_cf_cookies_wait]\<rparr>)"
    by (simp add: call_api_exit_def fetch_exit_def js_result_def attempt_ok_def
        session_ready_def browser_403_close_fails_def)
  from call_api_retry_once[where browser = browser_403_close_fails and first = True and U = bare_path
         and depth = depth_1000 and c'' = "session_ready\<lparr>scheduled := [Get_cf_cookies_wait]\<rparr>"
         and e = RuntimeError, OF sel r'] upstream_status x
  have "call_api bare_path first_key no_change browser_403_close_fails depth_1000 0 ''/c/5'' []
        (Some ''tok123'') True ([session_ready], store_a)
     = (Inl RuntimeError, ([session_ready\<lparr>scheduled := [Get_cf_cookies_wait]\<rparr>], store_a_saved))"
    by simp
  with r x show ?thesis by simp
qed

section \<open>The chunk iterator\<close>

lemma anext_timeout:
  "reader_read p = Late \<Longrightarrow> getReader p = InTime (Returned rd) \<Longrightarrow>
     fst (anext p (it, ds)) = Inl StopAsyncIteration \<and> snd (snd (anext p (it, ds))) = ds"
  by (simp add: anext_def iterator_read_def Let_def split: option.splits)

lemma anext_end_of_stream:
  "reader_read p = InTime (Returned (True, v)) \<Longrightarrow> getReader p = InTime (Returned rd) \<Longrightarrow>
   dispose_response p = Returned () \<Longrightarrow> dispose_reader p = Returned () \<Longrightarrow> reader it = None \<Longrightarrow>
     anext p (it, ds) = (Inl StopAsyncIteration, (it\<lparr>reader := Some rd\<rparr>, ds @ [it_response it, rd]))"
  by (simp add: anext_def iterator_read_def js_result_def Let_def)

text \<open>
  Claim C6 at a stream whose first read runs into the per-chunk timeout.  The source
  ends the iteration normally (\<open>StopAsyncIteration\<close>, no error for the loop), and the
  log of \<open>dispose\<close> calls is empty afterwards: neither the response handle nor the reader
  handle has been disposed.  At the end of the stream the same loop disposes both, once
  each.
\<close>

theorem timeout_disposes_nothing:
  "iter_chunked (upstream_response 200) = Inr chunk_iterator
   \<and> anext (pull_timeout 0) (chunk_iterator, [])
        = (Inl StopAsyncIteration, (chunk_iterator\<lparr>reader := Some 3\<rparr>, []))
   \<and> async_for pull_timeout 0 (chunk_iterator, []) []
        = Some ((None, []), (chunk_iterator\<lparr>reader := Some 3\<rparr>, []))
   \<and> async_for pull_done 0 (chunk_iterator, []) []
        = Some ((None, []), (chunk_iterator\<lparr>reader := Some 3\<rparr>, [2, 3]))"
proof (intro conjI)
  show "iter_chunked (upstream_response 200) = Inr chunk_iterator"
    by (simp add: iter_chunked_def upstream_response_def chunk_iterator_def)
  show a: "anext (pull_timeout 0) (chunk_iterator, [])
        = (Inl StopAsyncIteration, (chunk_iterator\<lparr>reader := Some 3\<rparr>, []))"
    by (simp add: anext_def iterator_read_def Let_def pull_timeout_def chunk_iterator_def)
  show "async_for pull_timeout 0 (chunk_iterator, []) []
        = Some ((None, []), (chunk_iterator\<lparr>reader := Some 3\<rparr>, []))"
    by (subst async_for.simps) (simp add: a)
  have d: "anext (pull_done 0) (chunk_iterator, [])
        = (Inl StopAsyncIteration, (chunk_iterator\<lparr>reader := Some 3\<rparr>, [2, 3]))"
    by (simp add: anext_def iterator_read_def js_result_def Let_def pull_done_def chunk_iterator_def)
  show "async_for pull_done 0 (chunk_iterator, []) []
        = Some ((None, []), (chunk_iterator\<lparr>reader := Some 3\<rparr>, [2, 3]))"
    by (subst async_for.simps) (simp add: d)
qed

section \<open>The credential store: what reaches the file\<close>

lemma save_in_sync: "cookies_json (save s) = Some (manager (save s))"
  by (simp add: save_def)

lemma save_puid_persists:
  "save_puid py_int p s = Inr s' \<Longrightarrow> cookies_json s' = Some (manager s')"
  by (auto simp: save_puid_def save_def split: list.splits option.splits)

lemma save_cf_clearance_persists:
  "save_cf_clearance py_int c s = Inr s' \<Longrightarrow> s' \<noteq> s \<Longrightarrow> cookies_json s' = Some (manager s')"
  by (auto simp: save_cf_clearance_def save_def split: list.splits option.splits if_splits)

lemma delete_cf_clearance_persists:
  "delete_cf_clearance c s = Inr (True, s') \<Longrightarrow> cookies_json s' = Some (manager s')"
  by (auto simp: delete_cf_clearance_def save_def split: list.splits if_splits)

text \<open>
  Claim C8 at a store whose file and object agree and whose only clearance token has
  expired.  \<open>get_cf_clearance\<close> deletes the entry from the object and does not call
  \<open>save\<close>: afterwards the file still holds the entry and differs from the object.  The
  same holds after the \<open>cf_clearance\<close> property has run.
\<close>

theorem eviction_not_persisted:
  "cookies_json store_d = Some (manager store_d)
   \<and> get_cf_clearance 100 ''abc'' store_d
        = (None, store_d\<lparr>manager := (manager store_d)\<lparr>cf_clearances := []\<rparr>\<rparr>)
   \<and> cf_clearance first_key (clock_at 100) 0 1000 store_d
        = (Inr [], store_d\<lparr>manager := (manager store_d)\<lparr>cf_clearances := []\<rparr>\<rparr>)
   \<and> cookies_json (store_d\<lparr>manager := (manager store_d)\<lparr>cf_clearances := []\<rparr>\<rparr>)
        \<noteq> Some (manager (store_d\<lparr>manager := (manager store_d)\<lparr>cf_clearances := []\<rparr>\<rparr>))"
proof (intro conjI)
  show "cookies_json store_d = Some (manager store_d)" by (simp add: store_d_def)
  show "get_cf_clearance 100 ''abc'' store_d
        = (None, store_d\<lparr>manager := (manager store_d)\<lparr>cf_clearances := []\<rparr>\<rparr>)"
    by (simp add: get_cf_clearance_def store_d_def del_key_def)
  have "\<forall>kv \<in> set (cf_clearances (manager store_d)).
               \<exists>e. expires (snd kv) = Some e \<and> (\<forall>j. e < clock_at 100 j)"
    by (simp add: store_d_def clock_at_def)
  moreover have "length (cf_clearances (manager store_d)) \<le> 1000" by (simp add: store_d_def)
  ultimately show "cf_clearance first_key (clock_at 100) 0 1000 store_d
        = (Inr [], store_d\<lparr>manager := (manager store_d)\<lparr>cf_clearances := []\<rparr>\<rparr>)"
    by (rule cf_clearance_all_expired)
  show "cookies_json (store_d\<lparr>manager := (manager store_d)\<lparr>cf_clearances := []\<rparr>\<rparr>)
        \<noteq> Some (manager (store_d\<lparr>manager := (manager store_d)\<lparr>cf_clearances := []\<rparr>\<rparr>))"
    by (simp add: store_d_def)
qed

end
